theory Spec2Isabelle
  imports Complex_Main "HOL-Library.Log_Nat"
begin

section \<open>Numbers of the host language\<close>

text \<open>
  The counters handled by \<^verbatim>\<open>src/index.js\<close> are JavaScript Numbers, that is binary64
  values. A Number is modelled as a rational (\<open>Fin 0\<close> is the positive zero), the negative
  zero, one of the two infinities, or NaN. Every arithmetic operation computes the exact
  result and rounds it with \<open>round64\<close>: to the nearest value with 53 significant bits
  (fewer in the subnormal range), ties to even, to an infinity from \<open>2\<^sup>1\<^sup>0\<^sup>2\<^sup>4\<close> on, and to a
  signed zero below half of the least subnormal value. The operations follow the
  special-value and sign rules of the language (zero signs, infinities, NaN).
\<close>

datatype jsnum = Fin rat | NegZero | PInf | NInf | NaN

definition is_finite :: "jsnum \<Rightarrow> bool" where
  "is_finite n = (case n of Fin x \<Rightarrow> True | NegZero \<Rightarrow> True | _ \<Rightarrow> False)"

definition is_infinite :: "jsnum \<Rightarrow> bool" where
  "is_infinite n = (n = PInf \<or> n = NInf)"

definition is_zero :: "jsnum \<Rightarrow> bool" where
  "is_zero n = (n = Fin 0 \<or> n = NegZero)"

definition negative :: "jsnum \<Rightarrow> bool" where
  \<comment> \<open>the sign bit\<close>
  "negative n = (case n of Fin x \<Rightarrow> x < 0 | NegZero \<Rightarrow> True | NInf \<Rightarrow> True | _ \<Rightarrow> False)"

definition magnitude :: "jsnum \<Rightarrow> rat" where
  "magnitude n = (case n of Fin x \<Rightarrow> \<bar>x\<bar> | _ \<Rightarrow> 0)"

definition signed_inf :: "bool \<Rightarrow> jsnum" where
  "signed_inf s = (if s then NInf else PInf)"

definition signed_fin :: "bool \<Rightarrow> rat \<Rightarrow> jsnum" where
  "signed_fin s m = (if m = 0 then (if s then NegZero else Fin 0) else Fin (if s then - m else m))"

definition ilog2 :: "rat \<Rightarrow> int" where
  \<comment> \<open>\<open>\<lfloor>log\<^sub>2 a\<rfloor>\<close> for \<open>a > 0\<close>\<close>
  "ilog2 a = (if 1 \<le> a then bitlen \<lfloor>a\<rfloor> - 1 else - bitlen (\<lceil>1 / a\<rceil> - 1))"

definition exponent :: "rat \<Rightarrow> int" where
  \<comment> \<open>the exponent of the unit in the last place of the binary64 values around \<open>a > 0\<close>:
      53 significant bits, and \<open>2\<^sup>-\<^sup>1\<^sup>0\<^sup>7\<^sup>4\<close> for the subnormal values\<close>
  "exponent a = max (- 1074) (ilog2 a - 52)"

definition nearest_even :: "rat \<Rightarrow> int" where
  \<comment> \<open>the nearest integer, the even one of two that are equally near\<close>
  "nearest_even q =
     (let f = \<lfloor>q\<rfloor>; d = q - of_int f
      in if d < 1 / 2 then f else if 1 / 2 < d then f + 1 else if even f then f else f + 1)"

definition rounded :: "rat \<Rightarrow> rat" where
  \<comment> \<open>\<open>a > 0\<close> rounded to 53 significant bits (fewer below \<open>2\<^sup>-\<^sup>1\<^sup>0\<^sup>2\<^sup>2\<close>), ties to even\<close>
  "rounded a = of_int (nearest_even (a / 2 powi exponent a)) * 2 powi exponent a"

definition round64 :: "rat \<Rightarrow> jsnum" where
  \<comment> \<open>the binary64 value of an exact result \<open>x \<noteq> 0\<close>: round to nearest, ties to even,
      overflow to an infinity, underflow to a zero of the same sign\<close>
  "round64 x =
     (if x = 0 then Fin 0
      else if 2 ^ 1024 \<le> rounded \<bar>x\<bar> then signed_inf (x < 0)
      else signed_fin (x < 0) (rounded \<bar>x\<bar>))"

definition num_neg :: "jsnum \<Rightarrow> jsnum" where
  "num_neg n = (case n of
       Fin x \<Rightarrow> (if x = 0 then NegZero else Fin (- x))
     | NegZero \<Rightarrow> Fin 0
     | PInf \<Rightarrow> NInf
     | NInf \<Rightarrow> PInf
     | NaN \<Rightarrow> NaN)"

definition num_add :: "jsnum \<Rightarrow> jsnum \<Rightarrow> jsnum" where
  \<comment> \<open>Number addition: \<open>-0 + -0 = -0\<close>, every other exact zero sum is \<open>+0\<close>.\<close>
  "num_add a b =
     (if a = NaN \<or> b = NaN then NaN
      else if (a = PInf \<and> b = NInf) \<or> (a = NInf \<and> b = PInf) then NaN
      else if is_infinite a then a
      else if is_infinite b then b
      else if a = NegZero then b
      else if b = NegZero then a
      else (case (a, b) of (Fin x, Fin y) \<Rightarrow> round64 (x + y) | _ \<Rightarrow> NaN))"

definition num_sub :: "jsnum \<Rightarrow> jsnum \<Rightarrow> jsnum" where
  "num_sub a b = num_add a (num_neg b)"

definition num_mul :: "jsnum \<Rightarrow> jsnum \<Rightarrow> jsnum" where
  "num_mul a b =
     (if a = NaN \<or> b = NaN then NaN
      else if (is_infinite a \<and> is_zero b) \<or> (is_zero a \<and> is_infinite b) then NaN
      else if is_infinite a \<or> is_infinite b then signed_inf (negative a \<noteq> negative b)
      else if is_zero a \<or> is_zero b then signed_fin (negative a \<noteq> negative b) 0
      else round64 ((if negative a \<noteq> negative b then - 1 else 1) * (magnitude a * magnitude b)))"

definition num_div :: "jsnum \<Rightarrow> jsnum \<Rightarrow> jsnum" where
  "num_div a b =
     (if a = NaN \<or> b = NaN then NaN
      else if is_infinite a \<and> is_infinite b then NaN
      else if is_zero a \<and> is_zero b then NaN
      else if is_infinite a \<or> is_zero b then signed_inf (negative a \<noteq> negative b)
      else if is_infinite b \<or> is_zero a then signed_fin (negative a \<noteq> negative b) 0
      else round64 ((if negative a \<noteq> negative b then - 1 else 1) * (magnitude a / magnitude b)))"

definition num_less :: "jsnum \<Rightarrow> jsnum \<Rightarrow> bool" where
  \<comment> \<open>the operator \<^verbatim>\<open><\<close> on Numbers: false when an operand is NaN, \<open>-0\<close> is not below \<open>+0\<close>\<close>
  "num_less a b =
     (if a = NaN \<or> b = NaN then False
      else if b = NInf \<or> a = PInf then False
      else if a = NInf \<or> b = PInf then True
      else (case a of Fin x \<Rightarrow> x | _ \<Rightarrow> 0) < (case b of Fin y \<Rightarrow> y | _ \<Rightarrow> 0))"

definition num_equal :: "jsnum \<Rightarrow> jsnum \<Rightarrow> bool" where
  \<comment> \<open>the operators \<^verbatim>\<open>==\<close> and \<^verbatim>\<open>===\<close> on Numbers: NaN equals nothing, the zeros are equal\<close>
  "num_equal a b = (a \<noteq> NaN \<and> b \<noteq> NaN \<and> (a = b \<or> (is_zero a \<and> is_zero b)))"

definition math_max :: "jsnum \<Rightarrow> jsnum \<Rightarrow> jsnum" where
  \<comment> \<open>\<^verbatim>\<open>Math.max(a, b)\<close>: NaN when an operand is NaN, and \<open>+0\<close> is larger than \<open>-0\<close>\<close>
  "math_max a b =
     (if a = NaN \<or> b = NaN then NaN
      else if num_less a b then b
      else if num_less b a then a
      else if a = NegZero then b else a)"

definition math_floor :: "jsnum \<Rightarrow> jsnum" where
  \<comment> \<open>\<^verbatim>\<open>Math.floor\<close>: the floor of a binary64 value is a binary64 value, nothing is rounded\<close>
  "math_floor n = (case n of Fin x \<Rightarrow> Fin (of_int \<lfloor>x\<rfloor>) | _ \<Rightarrow> n)"

section \<open>JSON text and the host environment\<close>

text \<open>
  What \<^verbatim>\<open>localStorage\<close> holds is text. The model identifies a well-formed JSON text with
  the JSON value it denotes and keeps one more case for every text that
  \<^verbatim>\<open>JSON.parse\<close> rejects; the characters of the encoding are not modelled. A number
  literal carries the Number it parses to, which is never NaN.
\<close>

datatype json =
    JNull
  | JBool bool
  | JNum jsnum
  | JStr string
  | JArr "json list"
  | JObj "(string \<times> json) list"

datatype stored = Valid json | Invalid

datatype exn = TypeError | SyntaxError | SecurityError | QuotaExceededError

datatype access = GetItem string | SetItem string stored | RemoveItem string | Clear

text \<open>
  The code runs against a host it does not define. Its part that the operations cannot
  change is a parameter of every definition:
  \<^item> \<open>number_text\<close> and \<open>text_number\<close>, the algorithms \<^verbatim>\<open>Number::toString\<close> and
    \<^verbatim>\<open>StringToNumber\<close> behind the operators;
  \<^item> \<open>random\<close>, the results of the successive calls of \<^verbatim>\<open>Math.random()\<close> (the language
    promises finite Numbers in \<open>[0, 1)\<close>; the statements that need it assume it);
  \<^item> \<open>fault\<close>, which says, for an access to \<^verbatim>\<open>localStorage\<close> and the entries it holds
    at that time, whether the access throws (storage disabled, quota exceeded) and what.
\<close>

record host =
  number_text :: "jsnum \<Rightarrow> string"
  text_number :: "string \<Rightarrow> jsnum"
  random :: "nat \<Rightarrow> rat"
  fault :: "access \<Rightarrow> (string \<Rightarrow> stored option) \<Rightarrow> exn option"

text \<open>
  The part that changes: the entries of \<^verbatim>\<open>localStorage\<close>, the number of calls of
  \<^verbatim>\<open>Math.random()\<close> made so far, and what \<^verbatim>\<open>console.error\<close> has printed.
\<close>

record world =
  storage :: "string \<Rightarrow> stored option"
  draws :: nat
  console :: "(string \<times> exn) list"

section \<open>Values, coercions and operators\<close>

text \<open>
  The values that can reach the operations: the primitives, arrays, and plain objects as
  the lists of their own properties (data as \<^verbatim>\<open>JSON.parse\<close> builds it or as an object
  literal writes it: the prototype is \<^verbatim>\<open>Object.prototype\<close> or \<^verbatim>\<open>Array.prototype\<close>, there
  are no accessors, no functions, no Symbol and no BigInt).
\<close>

datatype jsval =
    Undefined
  | Null
  | Bool bool
  | Num jsnum
  | Str string
  | Arr "jsval list"
  | Obj "(string \<times> jsval) list"

text \<open>
  A conversion of a value returns a result or throws; it does not touch the world.
\<close>

definition and_then :: "exn + 'a \<Rightarrow> ('a \<Rightarrow> exn + 'b) \<Rightarrow> exn + 'b" where
  "and_then r f = (case r of Inl e \<Rightarrow> Inl e | Inr x \<Rightarrow> f x)"

fun in_turn :: "(exn + 'a) list \<Rightarrow> exn + 'a list" where
  \<comment> \<open>evaluation from left to right: the first exception, or all the results\<close>
  "in_turn [] = Inr []"
| "in_turn (r # rs) = and_then r (\<lambda>x. and_then (in_turn rs) (\<lambda>xs. Inr (x # xs)))"

fun join_comma :: "string list \<Rightarrow> string" where
  "join_comma [] = []"
| "join_comma [s] = s"
| "join_comma (s # t # ts) = s @ '','' @ join_comma (t # ts)"

fun to_string :: "host \<Rightarrow> jsval \<Rightarrow> exn + string" where
  \<comment> \<open>\<^verbatim>\<open>ToString\<close>. An array is joined with commas, \<^verbatim>\<open>undefined\<close> and \<^verbatim>\<open>null\<close> elements
      giving the empty string. A plain object gives \<^verbatim>\<open>[object Object]\<close> through
      \<^verbatim>\<open>Object.prototype.toString\<close>, unless an own property \<^verbatim>\<open>toString\<close> hides that method:
      its value is not callable, \<^verbatim>\<open>valueOf\<close> returns no primitive, and the conversion
      throws a TypeError.\<close>
  "to_string H Undefined = Inr ''undefined''"
| "to_string H Null = Inr ''null''"
| "to_string H (Bool b) = Inr (if b then ''true'' else ''false'')"
| "to_string H (Num n) = Inr (number_text H n)"
| "to_string H (Str s) = Inr s"
| "to_string H (Arr xs) =
     and_then
       (in_turn (map (\<lambda>x. if x = Undefined \<or> x = Null then Inr [] else to_string H x) xs))
       (\<lambda>ss. Inr (join_comma ss))"
| "to_string H (Obj ps) =
     (if map_of ps ''toString'' = None then Inr ''[object Object]'' else Inl TypeError)"

definition to_primitive :: "host \<Rightarrow> jsval \<Rightarrow> exn + jsval" where
  \<comment> \<open>\<^verbatim>\<open>ToPrimitive\<close>: for an array or an object, \<^verbatim>\<open>valueOf\<close> returns the object itself, so
      the result is that of \<^verbatim>\<open>toString\<close>, with either hint\<close>
  "to_primitive H v =
     (case v of
        Arr xs \<Rightarrow> and_then (to_string H v) (\<lambda>s. Inr (Str s))
      | Obj ps \<Rightarrow> and_then (to_string H v) (\<lambda>s. Inr (Str s))
      | _ \<Rightarrow> Inr v)"

definition to_number :: "host \<Rightarrow> jsval \<Rightarrow> exn + jsnum" where
  "to_number H v =
     and_then (to_primitive H v) (\<lambda>p.
     Inr (case p of
            Undefined \<Rightarrow> NaN
          | Null \<Rightarrow> Fin 0
          | Bool b \<Rightarrow> (if b then Fin 1 else Fin 0)
          | Num n \<Rightarrow> n
          | Str s \<Rightarrow> text_number H s
          | _ \<Rightarrow> NaN))"

definition is_string :: "jsval \<Rightarrow> bool" where
  "is_string v = (case v of Str s \<Rightarrow> True | _ \<Rightarrow> False)"

definition js_plus :: "host \<Rightarrow> jsval \<Rightarrow> jsval \<Rightarrow> exn + jsval" where
  \<comment> \<open>\<^verbatim>\<open>a + b\<close>: both operands are made primitive, left first; concatenation when one
      of them is a string, Number addition otherwise\<close>
  "js_plus H a b =
     and_then (to_primitive H a) (\<lambda>p.
     and_then (to_primitive H b) (\<lambda>q.
     if is_string p \<or> is_string q then
       and_then (to_string H p) (\<lambda>s.
       and_then (to_string H q) (\<lambda>t.
       Inr (Str (s @ t))))
     else
       and_then (to_number H p) (\<lambda>x.
       and_then (to_number H q) (\<lambda>y.
       Inr (Num (num_add x y))))))"

definition js_minus :: "host \<Rightarrow> jsval \<Rightarrow> jsval \<Rightarrow> exn + jsval" where
  "js_minus H a b =
     and_then (to_number H a) (\<lambda>x.
     and_then (to_number H b) (\<lambda>y.
     Inr (Num (num_sub x y))))"

definition js_times :: "host \<Rightarrow> jsval \<Rightarrow> jsval \<Rightarrow> exn + jsval" where
  "js_times H a b =
     and_then (to_number H a) (\<lambda>x.
     and_then (to_number H b) (\<lambda>y.
     Inr (Num (num_mul x y))))"

definition js_divide :: "host \<Rightarrow> jsval \<Rightarrow> jsval \<Rightarrow> exn + jsval" where
  "js_divide H a b =
     and_then (to_number H a) (\<lambda>x.
     and_then (to_number H b) (\<lambda>y.
     Inr (Num (num_div x y))))"

definition Math_max :: "host \<Rightarrow> jsval \<Rightarrow> jsval \<Rightarrow> exn + jsval" where
  "Math_max H a b =
     and_then (to_number H a) (\<lambda>x.
     and_then (to_number H b) (\<lambda>y.
     Inr (Num (math_max x y))))"

definition Math_floor :: "host \<Rightarrow> jsval \<Rightarrow> exn + jsval" where
  "Math_floor H a = and_then (to_number H a) (\<lambda>x. Inr (Num (math_floor x)))"

definition typeof :: "jsval \<Rightarrow> string" where
  "typeof v =
     (case v of
        Undefined \<Rightarrow> ''undefined''
      | Null \<Rightarrow> ''object''
      | Bool b \<Rightarrow> ''boolean''
      | Num n \<Rightarrow> ''number''
      | Str s \<Rightarrow> ''string''
      | Arr xs \<Rightarrow> ''object''
      | Obj ps \<Rightarrow> ''object'')"

fun JSON_stringify :: "jsval \<Rightarrow> json option" where
  \<comment> \<open>\<open>None\<close> is the result \<^verbatim>\<open>undefined\<close>\<close>
  "JSON_stringify Undefined = None"
| "JSON_stringify Null = Some JNull"
| "JSON_stringify (Bool b) = Some (JBool b)"
| "JSON_stringify (Num n) =
     (case n of Fin x \<Rightarrow> Some (JNum (Fin x)) | NegZero \<Rightarrow> Some (JNum (Fin 0)) | _ \<Rightarrow> Some JNull)"
| "JSON_stringify (Str s) = Some (JStr s)"
| "JSON_stringify (Arr xs) =
     Some (JArr (map (\<lambda>x. case JSON_stringify x of None \<Rightarrow> JNull | Some j \<Rightarrow> j) xs))"
| "JSON_stringify (Obj ps) =
     Some (JObj (concat (map (\<lambda>(k, x). case JSON_stringify x of None \<Rightarrow> [] | Some j \<Rightarrow> [(k, j)]) ps)))"

fun revive :: "json \<Rightarrow> jsval" where
  \<comment> \<open>the value \<^verbatim>\<open>JSON.parse\<close> builds from a well-formed text\<close>
  "revive JNull = Null"
| "revive (JBool b) = Bool b"
| "revive (JNum n) = Num n"
| "revive (JStr s) = Str s"
| "revive (JArr js) = Arr (map revive js)"
| "revive (JObj ps) = Obj (map (\<lambda>(k, j). (k, revive j)) ps)"

definition string_of :: "json option \<Rightarrow> stored" where
  \<comment> \<open>the string \<^verbatim>\<open>setItem\<close> stores for its second argument: \<^verbatim>\<open>undefined\<close> becomes the
      nine characters \<^verbatim>\<open>undefined\<close>, which are not JSON\<close>
  "string_of r = (case r of None \<Rightarrow> Invalid | Some j \<Rightarrow> Valid j)"

section \<open>Computations that may throw\<close>

text \<open>
  A piece of code takes the world, returns a value or throws, and leaves a world behind:
  what was written or drawn before a throw stays.
\<close>

type_synonym 'a js = "world \<Rightarrow> (exn + 'a) \<times> world"

definition ret :: "'a \<Rightarrow> 'a js" where
  "ret x = (\<lambda>w. (Inr x, w))"

definition throw :: "exn \<Rightarrow> 'a js" where
  "throw e = (\<lambda>w. (Inl e, w))"

definition bnd :: "'a js \<Rightarrow> ('a \<Rightarrow> 'b js) \<Rightarrow> 'b js" where
  "bnd m f = (\<lambda>w. case m w of (Inl e, w') \<Rightarrow> (Inl e, w') | (Inr x, w') \<Rightarrow> f x w')"

definition try_catch :: "'a js \<Rightarrow> (exn \<Rightarrow> 'a js) \<Rightarrow> 'a js" where
  "try_catch m h = (\<lambda>w. case m w of (Inl e, w') \<Rightarrow> h e w' | (Inr x, w') \<Rightarrow> (Inr x, w'))"

definition lift :: "exn + 'a \<Rightarrow> 'a js" where
  \<comment> \<open>an expression that only converts and computes: its result or its exception\<close>
  "lift r = (\<lambda>w. (r, w))"

definition console_error :: "string \<Rightarrow> exn \<Rightarrow> unit js" where
  "console_error msg e = (\<lambda>w. (Inr (), w\<lparr>console := console w @ [(msg, e)]\<rparr>))"

definition localStorage_getItem :: "host \<Rightarrow> string \<Rightarrow> (stored option) js" where
  "localStorage_getItem H key =
     (\<lambda>w. case fault H (GetItem key) (storage w) of
             Some e \<Rightarrow> (Inl e, w)
           | None \<Rightarrow> (Inr (storage w key), w))"

definition localStorage_setItem :: "host \<Rightarrow> string \<Rightarrow> json option \<Rightarrow> unit js" where
  "localStorage_setItem H key v =
     (\<lambda>w. case fault H (SetItem key (string_of v)) (storage w) of
             Some e \<Rightarrow> (Inl e, w)
           | None \<Rightarrow> (Inr (), w\<lparr>storage := (storage w)(key \<mapsto> string_of v)\<rparr>))"

definition localStorage_removeItem :: "host \<Rightarrow> string \<Rightarrow> unit js" where
  "localStorage_removeItem H key =
     (\<lambda>w. case fault H (RemoveItem key) (storage w) of
             Some e \<Rightarrow> (Inl e, w)
           | None \<Rightarrow> (Inr (), w\<lparr>storage := (storage w)(key := None)\<rparr>))"

definition localStorage_clear :: "host \<Rightarrow> unit js" where
  "localStorage_clear H =
     (\<lambda>w. case fault H Clear (storage w) of
             Some e \<Rightarrow> (Inl e, w)
           | None \<Rightarrow> (Inr (), w\<lparr>storage := Map.empty\<rparr>))"

definition JSON_parse :: "stored option \<Rightarrow> jsval js" where
  \<comment> \<open>the argument \<^verbatim>\<open>null\<close> of an absent entry is read as the text \<^verbatim>\<open>null\<close>\<close>
  "JSON_parse raw =
     (case raw of
        None \<Rightarrow> ret Null
      | Some Invalid \<Rightarrow> throw SyntaxError
      | Some (Valid j) \<Rightarrow> ret (revive j))"

definition Math_random :: "host \<Rightarrow> jsval js" where
  "Math_random H = (\<lambda>w. (Inr (Num (Fin (random H (draws w)))), w\<lparr>draws := Suc (draws w)\<rparr>))"

definition member :: "jsval \<Rightarrow> string \<Rightarrow> jsval js" where
  \<comment> \<open>\<^verbatim>\<open>v.name\<close> for a name that no built-in prototype defines (the code reads
      \<^verbatim>\<open>min\<close> and \<^verbatim>\<open>max\<close>)\<close>
  "member v name =
     (case v of
        Undefined \<Rightarrow> throw TypeError
      | Null \<Rightarrow> throw TypeError
      | Obj ps \<Rightarrow> ret (case map_of ps name of None \<Rightarrow> Undefined | Some x \<Rightarrow> x)
      | _ \<Rightarrow> ret Undefined)"

section \<open>The operations of \<^verbatim>\<open>eco\<close>\<close>

text \<open>
  Each method of the object \<^verbatim>\<open>eco\<close> of \<^verbatim>\<open>src/index.js\<close> becomes a function of the host
  and of the method's arguments, in the order of the source. The methods call each other
  through \<^verbatim>\<open>this\<close>, which is \<^verbatim>\<open>eco\<close> in a call \<^verbatim>\<open>eco.add(...)\<close>. Keys are strings. A
  \<^verbatim>\<open>try { ... } catch (error) { ... }\<close> is \<open>try_catch\<close> applied to the two blocks; a
  message of \<^verbatim>\<open>console.error\<close> is kept with the exception printed after it.
\<close>

definition quoted :: "string \<Rightarrow> string" where
  "quoted key = [CHR 0x27] @ key @ [CHR 0x27]"

definition get :: "host \<Rightarrow> string \<Rightarrow> jsval js" where
  "get H key =
     try_catch
       (bnd (localStorage_getItem H key) (\<lambda>raw.
        bnd (JSON_parse raw) (\<lambda>data.
        if data = Null then ret (Num (Fin 0)) else ret data)))
       (\<lambda>error.
        bnd (console_error (''Error getting key '' @ quoted key @ '':'') error) (\<lambda>_.
        ret (Num (Fin 0))))"

definition randomize :: "host \<Rightarrow> jsval \<Rightarrow> jsval \<Rightarrow> jsval js" where
  \<comment> \<open>\<^verbatim>\<open>Math.floor(Math.random() * (max - min + 1)) + min\<close>: the call of
      \<^verbatim>\<open>Math.random()\<close> comes first, then the operators from the inside out\<close>
  "randomize H mn mx =
     bnd (Math_random H) (\<lambda>r.
     lift
       (and_then (js_minus H mx mn) (\<lambda>d.
        and_then (js_plus H d (Num (Fin 1))) (\<lambda>n.
        and_then (js_times H r n) (\<lambda>p.
        and_then (Math_floor H p) (\<lambda>f.
        js_plus H f mn))))))"

definition range_given :: "jsval \<Rightarrow> bool js" where
  \<comment> \<open>the condition \<^verbatim>\<open>typeof value === "object" && value.min !== undefined &&
      value.max !== undefined\<close>, evaluated left to right\<close>
  "range_given v =
     (if typeof v = ''object'' then
        bnd (member v ''min'') (\<lambda>mn.
        if mn \<noteq> Undefined then bnd (member v ''max'') (\<lambda>mx. ret (mx \<noteq> Undefined))
        else ret False)
      else ret False)"

definition resolve :: "host \<Rightarrow> jsval \<Rightarrow> jsval js" where
  \<comment> \<open>the statement that opens \<^verbatim>\<open>set\<close>, \<^verbatim>\<open>add\<close>, \<^verbatim>\<open>sub\<close>, \<^verbatim>\<open>mul\<close>, \<^verbatim>\<open>div\<close> and the
      callback of every batch operation:
      \<^verbatim>\<open>if (<condition>) { value = this.randomize(value.min, value.max); }\<close>;
      the result is the value of the variable after it\<close>
  "resolve H v =
     bnd (range_given v) (\<lambda>c.
     if c then
       bnd (member v ''min'') (\<lambda>mn.
       bnd (member v ''max'') (\<lambda>mx.
       randomize H mn mx))
     else ret v)"

definition set_eco :: "host \<Rightarrow> string \<Rightarrow> jsval \<Rightarrow> unit js" where
  "set_eco H key v =
     try_catch
       (bnd (resolve H v) (\<lambda>v'.
        localStorage_setItem H key (JSON_stringify v')))
       (\<lambda>error. console_error (''Error setting key '' @ quoted key @ '':'') error)"

definition add :: "host \<Rightarrow> string \<Rightarrow> jsval \<Rightarrow> unit js" where
  "add H key amount =
     try_catch
       (bnd (resolve H amount) (\<lambda>amount'.
        bnd (get H key) (\<lambda>current.
        bnd (lift (js_plus H current amount')) (\<lambda>result.
        set_eco H key result))))
       (\<lambda>error. console_error (''Error adding to key '' @ quoted key @ '':'') error)"

definition sub :: "host \<Rightarrow> string \<Rightarrow> jsval \<Rightarrow> unit js" where
  "sub H key amount =
     try_catch
       (bnd (resolve H amount) (\<lambda>amount'.
        bnd (get H key) (\<lambda>current.
        bnd (lift (and_then (js_minus H current amount') (Math_max H (Num (Fin 0))))) (\<lambda>result.
        set_eco H key result))))
       (\<lambda>error. console_error (''Error subtracting from key '' @ quoted key @ '':'') error)"

definition del :: "host \<Rightarrow> string \<Rightarrow> unit js" where
  "del H key =
     try_catch
       (localStorage_removeItem H key)
       (\<lambda>error. console_error (''Error deleting key '' @ quoted key @ '':'') error)"

definition res :: "host \<Rightarrow> unit js" where
  "res H =
     try_catch
       (localStorage_clear H)
       (\<lambda>error. console_error ''Error resetting localStorage:'' error)"

definition mul :: "host \<Rightarrow> string \<Rightarrow> jsval \<Rightarrow> unit js" where
  "mul H key amount =
     try_catch
       (bnd (resolve H amount) (\<lambda>amount'.
        bnd (get H key) (\<lambda>current.
        bnd (lift (js_times H current amount')) (\<lambda>result.
        set_eco H key result))))
       (\<lambda>error. console_error (''Error multiplying key '' @ quoted key @ '':'') error)"

definition div_eco :: "host \<Rightarrow> string \<Rightarrow> jsval \<Rightarrow> unit js" where
  "div_eco H key amount =
     try_catch
       (bnd (resolve H amount) (\<lambda>amount'.
        bnd (get H key) (\<lambda>current.
        bnd (lift (and_then (js_divide H current amount') (Math_max H (Num (Fin 0))))) (\<lambda>result.
        set_eco H key result))))
       (\<lambda>error. console_error (''Error dividing key '' @ quoted key @ '':'') error)"

subsection \<open>Batch operations\<close>

text \<open>
  The argument of a batch operation is an array, or a value that has no method
  \<^verbatim>\<open>forEach\<close> or \<^verbatim>\<open>reduce\<close>, on which the call throws. An item of a batch is the pair
  that the callback's parameter \<^verbatim>\<open>{ key, value }\<close> takes apart.
\<close>

datatype 'a argument = Array "'a list" | NoArray

fun each :: "('a \<Rightarrow> unit js) \<Rightarrow> 'a list \<Rightarrow> unit js" where
  "each f [] = ret ()"
| "each f (x # xs) = bnd (f x) (\<lambda>_. each f xs)"

definition forEach :: "'a argument \<Rightarrow> ('a \<Rightarrow> unit js) \<Rightarrow> unit js" where
  "forEach items f = (case items of Array xs \<Rightarrow> each f xs | NoArray \<Rightarrow> throw TypeError)"

fun accumulate :: "('b \<Rightarrow> 'a \<Rightarrow> 'b js) \<Rightarrow> 'a list \<Rightarrow> 'b \<Rightarrow> 'b js" where
  "accumulate f [] acc = ret acc"
| "accumulate f (x # xs) acc = bnd (f acc x) (\<lambda>acc'. accumulate f xs acc')"

definition reduce :: "'a argument \<Rightarrow> ('b \<Rightarrow> 'a \<Rightarrow> 'b js) \<Rightarrow> 'b \<Rightarrow> 'b js" where
  "reduce keys f init = (case keys of Array xs \<Rightarrow> accumulate f xs init | NoArray \<Rightarrow> throw TypeError)"

definition batchSet :: "host \<Rightarrow> (string \<times> jsval) argument \<Rightarrow> unit js" where
  "batchSet H items =
     try_catch
       (forEach items (\<lambda>(key, v). bnd (resolve H v) (\<lambda>v'. set_eco H key v')))
       (\<lambda>error. console_error ''Error batch setting:'' error)"

definition batchAdd :: "host \<Rightarrow> (string \<times> jsval) argument \<Rightarrow> unit js" where
  "batchAdd H items =
     try_catch
       (forEach items (\<lambda>(key, v). bnd (resolve H v) (\<lambda>v'. add H key v')))
       (\<lambda>error. console_error ''Error batch adding:'' error)"

definition batchSub :: "host \<Rightarrow> (string \<times> jsval) argument \<Rightarrow> unit js" where
  "batchSub H items =
     try_catch
       (forEach items (\<lambda>(key, v). bnd (resolve H v) (\<lambda>v'. sub H key v')))
       (\<lambda>error. console_error ''Error batch subtracting:'' error)"

definition batchMul :: "host \<Rightarrow> (string \<times> jsval) argument \<Rightarrow> unit js" where
  "batchMul H items =
     try_catch
       (forEach items (\<lambda>(key, v). bnd (resolve H v) (\<lambda>v'. mul H key v')))
       (\<lambda>error. console_error ''Error batch multiplying:'' error)"

definition batchDiv :: "host \<Rightarrow> (string \<times> jsval) argument \<Rightarrow> unit js" where
  "batchDiv H items =
     try_catch
       (forEach items (\<lambda>(key, v). bnd (resolve H v) (\<lambda>v'. div_eco H key v')))
       (\<lambda>error. console_error ''Error batch dividing:'' error)"

definition batchDel :: "host \<Rightarrow> string argument \<Rightarrow> unit js" where
  "batchDel H keys =
     try_catch
       (forEach keys (\<lambda>key. del H key))
       (\<lambda>error. console_error ''Error batch deleting:'' error)"

definition assign :: "(string \<Rightarrow> jsval option) \<Rightarrow> string \<Rightarrow> jsval \<Rightarrow> (string \<Rightarrow> jsval option)" where
  \<comment> \<open>\<^verbatim>\<open>result[key] = v\<close> on the own properties of a plain object: the name
      \<^verbatim>\<open>__proto__\<close> is the prototype accessor and defines no property\<close>
  "assign result key v = (if key = ''__proto__'' then result else result(key \<mapsto> v))"

definition batchGet :: "host \<Rightarrow> string argument \<Rightarrow> (string \<Rightarrow> jsval option) js" where
  "batchGet H keys =
     try_catch
       (reduce keys (\<lambda>result key. bnd (get H key) (\<lambda>v. ret (assign result key v))) Map.empty)
       (\<lambda>error.
        bnd (console_error ''Error batch getting:'' error) (\<lambda>_.
        ret Map.empty))"

subsection \<open>A host for running examples\<close>

definition plain_host :: host where
  \<comment> \<open>a store that never throws, \<^verbatim>\<open>Math.random()\<close> returning \<open>1/2\<close> and then \<open>0\<close>; the
      two text conversions are not needed where only Numbers meet\<close>
  "plain_host =
     \<lparr>number_text = (\<lambda>n. ''?''), text_number = (\<lambda>s. NaN),
      random = (\<lambda>i. if i = 0 then 1 / 2 else 0), fault = (\<lambda>a m. None)\<rparr>"

definition broken_host :: host where
  \<comment> \<open>as \<open>plain_host\<close>, with a store whose every access throws\<close>
  "broken_host = plain_host\<lparr>fault := (\<lambda>a m. Some SecurityError)\<rparr>"

definition fresh :: world where
  "fresh = \<lparr>storage = Map.empty, draws = 0, console = []\<rparr>"

subsection \<open>Predicates used in the statements\<close>

definition reliable :: "host \<Rightarrow> bool" where
  \<comment> \<open>no access to the store throws\<close>
  "reliable H = (\<forall>a m. fault H a m = None)"

definition broken :: "host \<Rightarrow> bool" where
  \<comment> \<open>every access to the store throws\<close>
  "broken H = (\<forall>a m. fault H a m \<noteq> None)"

definition propagates :: "'a js \<Rightarrow> world \<Rightarrow> bool" where
  \<comment> \<open>the call ends with an exception that reaches the caller\<close>
  "propagates m w = isl (fst (m w))"

definition keeps :: "(string \<Rightarrow> bool) \<Rightarrow> 'a js \<Rightarrow> bool" where
  \<comment> \<open>the entries under the keys in \<open>P\<close> are the same after the call, however it ends\<close>
  "keeps P m = (\<forall>w k. P k \<longrightarrow> storage (snd (m w)) k = storage w k)"

definition is_range :: "jsval \<Rightarrow> bool" where
  \<comment> \<open>the values on which the condition of \<open>range_given\<close> holds: objects whose own
      properties \<^verbatim>\<open>min\<close> and \<^verbatim>\<open>max\<close> are both present and not \<^verbatim>\<open>undefined\<close>\<close>
  "is_range v =
     (case v of
        Obj ps \<Rightarrow> map_of ps ''min'' \<noteq> None \<and> map_of ps ''min'' \<noteq> Some Undefined
                 \<and> map_of ps ''max'' \<noteq> None \<and> map_of ps ''max'' \<noteq> Some Undefined
      | _ \<Rightarrow> False)"

definition field :: "jsval \<Rightarrow> string \<Rightarrow> jsval" where
  \<comment> \<open>what \<open>member\<close> returns where it does not throw\<close>
  "field v name =
     (case v of
        Obj ps \<Rightarrow> (case map_of ps name of None \<Rightarrow> Undefined | Some x \<Rightarrow> x)
      | _ \<Rightarrow> Undefined)"

definition is_amount :: "jsval \<Rightarrow> bool" where
  \<comment> \<open>an operand as the documentation types it: a Number, or an object whose \<^verbatim>\<open>min\<close>
      and \<^verbatim>\<open>max\<close> are Numbers\<close>
  "is_amount v =
     (case v of
        Num n \<Rightarrow> True
      | Obj ps \<Rightarrow>
          (case (map_of ps ''min'', map_of ps ''max'') of
             (Some (Num a), Some (Num b)) \<Rightarrow> True
           | _ \<Rightarrow> False)
      | _ \<Rightarrow> False)"

definition is_binary64 :: "rat \<Rightarrow> bool" where
  \<comment> \<open>the rational is a finite binary64 value: rounding keeps it\<close>
  "is_binary64 x = (round64 x = Fin x)"

fun plain_data :: "jsval \<Rightarrow> bool" where
  \<comment> \<open>the values JSON represents exactly: \<^verbatim>\<open>null\<close>, booleans, strings, finite Numbers
      other than the negative zero, and arrays and objects of such values\<close>
  "plain_data Undefined = False"
| "plain_data Null = True"
| "plain_data (Bool b) = True"
| "plain_data (Num n) = (case n of Fin x \<Rightarrow> True | _ \<Rightarrow> False)"
| "plain_data (Str s) = True"
| "plain_data (Arr xs) = (\<forall>x \<in> set xs. plain_data x)"
| "plain_data (Obj ps) = (\<forall>p \<in> set ps. plain_data (snd p))"

section \<open>Facts about rounding\<close>

lemma pow2_mono: "m \<le> n \<Longrightarrow> (2::rat) powi m \<le> 2 powi n"
  by (rule power_int_increasing) simp_all

lemma pow2_less_imp: "(2::rat) powi m < 2 powi n \<Longrightarrow> m < n"
  using pow2_mono [of n m] by (cases "m < n") auto

lemma pow2_nat: "0 \<le> n \<Longrightarrow> (2::rat) powi n = 2 ^ nat n"
  by (rule power_int_nonneg_exp)

lemma pow2_neg: "0 \<le> n \<Longrightarrow> (2::rat) powi (- n) = 1 / 2 ^ nat n"
  by (simp add: power_int_minus_divide power_int_nonneg_exp)

lemma ilog2_bounds:
  assumes "0 < a"
  shows "2 powi (ilog2 a) \<le> a" and "a < 2 powi (ilog2 a + 1)"
proof -
  have "2 powi (ilog2 a) \<le> a \<and> a < 2 powi (ilog2 a + 1)"
  proof (cases "1 \<le> a")
    case True
    let ?f = "\<lfloor>a\<rfloor>"
    have f: "0 < ?f" using True by simp
    have b: "1 \<le> bitlen ?f" using f by (simp add: bitlen_alt_def)
    have lo: "2 ^ nat (bitlen ?f - 1) \<le> ?f" and hi: "?f < 2 ^ nat (bitlen ?f)"
      using bitlen_bounds [OF f] by simp_all
    have k: "ilog2 a = bitlen ?f - 1" using True by (simp add: ilog2_def)
    have "(2::rat) powi (bitlen ?f - 1) = of_int (2 ^ nat (bitlen ?f - 1))"
      using b by (simp add: power_int_nonneg_exp)
    also have "\<dots> \<le> of_int ?f" using lo by (simp only: of_int_le_iff)
    also have "\<dots> \<le> a" by simp
    finally have 1: "2 powi (ilog2 a) \<le> a" by (simp add: k)
    have "?f + 1 \<le> 2 ^ nat (bitlen ?f)" using hi by simp
    then have "(of_int (?f + 1) :: rat) \<le> of_int (2 ^ nat (bitlen ?f))"
      by (simp only: of_int_le_iff)
    moreover have "a < of_int (?f + 1)" by simp linarith
    moreover have "(2::rat) powi (bitlen ?f) = of_int (2 ^ nat (bitlen ?f))"
      using b by (simp add: power_int_nonneg_exp)
    ultimately have 2: "a < 2 powi (ilog2 a + 1)" by (simp add: k)
    from 1 2 show ?thesis by simp
  next
    case False
    let ?c = "\<lceil>1 / a\<rceil>"
    let ?m = "?c - 1"
    have y: "1 < 1 / a" using False assms by simp
    have c: "2 \<le> ?c" using y by (simp add: le_ceiling_iff) 
    have m: "0 < ?m" using c by simp
    have b: "1 \<le> bitlen ?m" using m by (simp add: bitlen_alt_def)
    have lo: "2 ^ nat (bitlen ?m - 1) \<le> ?m" and hi: "?m < 2 ^ nat (bitlen ?m)"
      using bitlen_bounds [OF m] by simp_all
    have k: "ilog2 a = - bitlen ?m" using False by (simp add: ilog2_def)
    have p: "(2::rat) powi (- bitlen ?m) = 1 / of_int (2 ^ nat (bitlen ?m))"
      using b by (simp add: power_int_minus_divide power_int_nonneg_exp)
    have "1 / a \<le> of_int ?c" by simp
    also have "?c \<le> 2 ^ nat (bitlen ?m)" using hi by simp
    then have "(of_int ?c :: rat) \<le> of_int (2 ^ nat (bitlen ?m))" by (simp only: of_int_le_iff)
    finally have "1 / a \<le> of_int (2 ^ nat (bitlen ?m))" .
    then have 1: "2 powi (ilog2 a) \<le> a"
      using assms by (simp add: k p field_simps)
    have q: "(2::rat) powi (1 - bitlen ?m) = 1 / of_int (2 ^ nat (bitlen ?m - 1))"
      using b pow2_neg [of "bitlen ?m - 1"] by simp
    have "(of_int (2 ^ nat (bitlen ?m - 1)) :: rat) \<le> of_int ?m" using lo by (simp only: of_int_le_iff)
    also have "of_int ?m < 1 / a" using ceiling_correct [of "1 / a"] by simp
    finally have "of_int (2 ^ nat (bitlen ?m - 1)) < 1 / a" .
    then have 2: "a < 2 powi (ilog2 a + 1)"
      using assms by (simp add: k q field_simps)
    from 1 2 show ?thesis by simp
  qed
  then show "2 powi (ilog2 a) \<le> a" and "a < 2 powi (ilog2 a + 1)" by simp_all
qed

lemma ilog2_eq:
  assumes "2 powi k \<le> a" and "a < 2 powi (k + 1)"
  shows "ilog2 a = k"
proof -
  have a: "0 < a" using assms(1) by (rule less_le_trans [rotated]) simp
  have "(2::rat) powi (ilog2 a) < 2 powi (k + 1)"
    using ilog2_bounds(1) [OF a] assms(2) by (rule le_less_trans)
  then have 1: "ilog2 a < k + 1" by (rule pow2_less_imp)
  have "(2::rat) powi k < 2 powi (ilog2 a + 1)"
    using assms(1) ilog2_bounds(2) [OF a] by (rule le_less_trans)
  then have 2: "k < ilog2 a + 1" by (rule pow2_less_imp)
  from 1 2 show ?thesis by simp
qed

lemma of_int_le_pow2: "i \<le> 2 ^ n \<Longrightarrow> (of_int i :: rat) \<le> 2 ^ n"
  by (metis of_int_le_iff of_int_numeral of_int_power)

lemma of_int_less_pow2: "i < 2 ^ n \<Longrightarrow> (of_int i :: rat) < 2 ^ n"
  by (metis of_int_less_iff of_int_numeral of_int_power)

lemma pow2_le_of_int: "(2::rat) ^ n \<le> of_int i \<Longrightarrow> 2 ^ n \<le> i"
  by (metis of_int_le_iff of_int_numeral of_int_power)

lemma pow2_less_of_int: "(2::rat) ^ n < of_int i \<Longrightarrow> 2 ^ n < i"
  by (metis of_int_less_iff of_int_numeral of_int_power)

lemma pow2_nat_eq: "(2::rat) ^ n = 2 powi (int n)"
  by simp

lemma nearest_even_int: "nearest_even (of_int n) = n"
  by (simp add: nearest_even_def)

lemma nearest_even_ge:
  assumes "of_int n \<le> q"
  shows "n \<le> nearest_even q"
proof -
  have "n \<le> \<lfloor>q\<rfloor>" using assms by (simp add: le_floor_iff)
  then show ?thesis by (auto simp: nearest_even_def Let_def)
qed

lemma nearest_even_below:
  assumes "q < of_int n - 1 / 2"
  shows "nearest_even q \<le> n - 1"
proof -
  have f: "\<lfloor>q\<rfloor> \<le> n - 1"
  proof -
    have "q < of_int n" using assms by simp
    then have "\<lfloor>q\<rfloor> < n" by (simp add: floor_less_iff)
    then show ?thesis by simp
  qed
  show ?thesis
  proof (cases "\<lfloor>q\<rfloor> = n - 1")
    case True
    then have "q - of_int \<lfloor>q\<rfloor> < 1 / 2" using assms by simp
    then show ?thesis using True by (simp add: nearest_even_def Let_def)
  next
    case False
    then have "\<lfloor>q\<rfloor> + 1 \<le> n - 1" using f by simp
    then show ?thesis by (auto simp: nearest_even_def Let_def)
  qed
qed

lemma round64_pos:
  assumes "0 < x"
  shows "round64 x = (if 2 ^ 1024 \<le> rounded x then PInf else Fin (rounded x))"
proof -
  have "0 \<le> rounded x"
    using assms by (simp add: rounded_def nearest_even_ge)
  then show ?thesis
    using assms by (simp add: round64_def signed_inf_def signed_fin_def)
qed

lemma round64_neg:
  assumes "0 < x"
  shows "round64 (- x) =
     (if 2 ^ 1024 \<le> rounded x then NInf else if rounded x = 0 then NegZero else Fin (- rounded x))"
  using assms by (simp add: round64_def signed_inf_def signed_fin_def)

lemma rounded_exact:
  assumes "a / 2 powi exponent a = of_int m"
  shows "rounded a = a"
proof -
  have "rounded a = a / 2 powi exponent a * 2 powi exponent a"
    unfolding rounded_def by (simp only: assms nearest_even_int)
  then show ?thesis by simp
qed

lemma round64_exact:
  assumes "0 < a" and "a < 2 ^ 1024" and "a / 2 powi exponent a = of_int m"
  shows "round64 a = Fin a" and "round64 (- a) = Fin (- a)"
  using assms(1,2) by (simp_all add: round64_pos round64_neg rounded_exact [OF assms(3)])

lemma exponent_int:
  fixes i :: int
  assumes "0 < i" and "i \<le> 2 ^ 53"
  shows "exponent (of_int i) \<le> 0 \<or> (exponent (of_int i) = 1 \<and> i = 2 ^ 53)"
proof -
  let ?a = "of_int i :: rat"
  have a: "0 < ?a" using assms(1) by simp
  have "2 powi (ilog2 ?a) \<le> ?a" by (rule ilog2_bounds(1) [OF a])
  also have "?a \<le> 2 ^ 53" using assms(2) by (rule of_int_le_pow2)
  also have "(2::rat) ^ 53 < 2 powi 54" by simp
  finally have k: "ilog2 ?a \<le> 53"
    using pow2_less_imp [of "ilog2 ?a" 54] by simp
  show ?thesis
  proof (cases "ilog2 ?a = 53")
    case True
    then have "(2::rat) ^ 53 \<le> ?a" using ilog2_bounds(1) [OF a] by simp
    then have "(2::int) ^ 53 \<le> i" by (rule pow2_le_of_int)
    then show ?thesis using assms(2) True by (simp add: exponent_def)
  next
    case False
    then show ?thesis using k by (simp add: exponent_def)
  qed
qed

lemma round64_int:
  fixes i :: int
  assumes "\<bar>i\<bar> \<le> 2 ^ 53"
  shows "round64 (of_int i) = Fin (of_int i)"
proof (cases "i = 0")
  case True
  then show ?thesis by (simp add: round64_def)
next
  case False
  define j where "j = \<bar>i\<bar>"
  have j: "0 < j" "j \<le> 2 ^ 53" using False assms by (simp_all add: j_def)
  let ?a = "of_int j :: rat"
  have a: "0 < ?a" using j by simp
  have lt: "?a < 2 ^ 1024"
  proof -
    have "?a \<le> 2 ^ 53" using j(2) by (rule of_int_le_pow2)
    also have "(2::rat) ^ 53 < 2 ^ 1024" by (rule power_strict_increasing) simp_all
    finally show ?thesis .
  qed
  have "\<exists>m. ?a / 2 powi exponent ?a = of_int m"
  proof -
    from exponent_int [OF j] show ?thesis
    proof
      assume e: "exponent ?a \<le> 0"
      define t where "t = nat (- exponent ?a)"
      have "exponent ?a = - int t" using e by (simp add: t_def)
      then have "?a / 2 powi exponent ?a = of_int (j * 2 ^ t)"
        by (simp add: power_int_minus_divide)
      then show ?thesis ..
    next
      assume "exponent ?a = 1 \<and> j = 2 ^ 53"
      then have e1: "exponent ?a = 1" and e2: "j = 2 ^ 53" by blast+
      have "?a / 2 powi exponent ?a = ?a / 2" unfolding e1 by simp
      also have "\<dots> = of_int (2 ^ 52)" unfolding e2 by simp
      finally show ?thesis ..
    qed
  qed
  then obtain m where m: "?a / 2 powi exponent ?a = of_int m" ..
  have r: "round64 ?a = Fin ?a" "round64 (- ?a) = Fin (- ?a)"
    using round64_exact [OF a lt m] by simp_all
  show ?thesis
  proof (cases "0 < i")
    case True
    then show ?thesis using r(1) by (simp add: j_def)
  next
    case False
    then have "of_int i = - ?a" by (simp add: j_def)
    then show ?thesis using r(2) by simp
  qed
qed

lemma rounded_overflow:
  assumes "2 ^ 1024 \<le> a"
  shows "2 ^ 1024 \<le> rounded a"
proof -
  have a: "0 < a" using assms by (rule less_le_trans [rotated]) simp
  let ?k = "ilog2 a"
  let ?e = "exponent a"
  have "(2::rat) powi 1024 \<le> a" using assms by simp
  also have "a < 2 powi (?k + 1)" by (rule ilog2_bounds(2) [OF a])
  finally have k: "1024 \<le> ?k" using pow2_less_imp [of 1024 "?k + 1"] by simp
  then have e: "?e = ?k - 52" by (simp add: exponent_def)
  have "(2::rat) powi 52 = 2 powi ?k / 2 powi ?e"
    by (simp add: e power_int_diff)
  also have "\<dots> \<le> a / 2 powi ?e"
    using ilog2_bounds(1) [OF a] by (intro divide_right_mono) simp_all
  finally have "of_int (2 ^ 52) \<le> a / 2 powi ?e" by simp
  then have "2 ^ 52 \<le> nearest_even (a / 2 powi ?e)" by (rule nearest_even_ge)
  then have "(2::rat) ^ 52 \<le> of_int (nearest_even (a / 2 powi ?e))"
    by (metis of_int_le_iff of_int_numeral of_int_power)
  then have "(2::rat) ^ 52 * 2 powi ?e \<le> rounded a"
    unfolding rounded_def by (rule mult_right_mono) simp
  moreover have "(2::rat) ^ 1024 \<le> 2 ^ 52 * 2 powi ?e"
  proof -
    have "(2::rat) powi 1024 \<le> 2 powi (52 + ?e)" using k e by (intro pow2_mono) simp
    also have "\<dots> = 2 powi 52 * 2 powi ?e" by (rule power_int_add) simp
    finally show ?thesis by simp
  qed
  ultimately show ?thesis by (rule order_trans [rotated])
qed

lemma round64_overflow:
  assumes "2 ^ 1024 \<le> a"
  shows "round64 a = PInf" and "round64 (- a) = NInf"
proof -
  have a: "0 < a" using assms by (rule less_le_trans [rotated]) simp
  show "round64 a = PInf" using rounded_overflow [OF assms] by (simp only: round64_pos [OF a] if_True)
  show "round64 (- a) = NInf" using rounded_overflow [OF assms] by (simp only: round64_neg [OF a] if_True)
qed

lemma rounded_nonneg: "0 < x \<Longrightarrow> 0 \<le> rounded x"
  by (simp add: rounded_def nearest_even_ge)

lemma rounded_below_int:
  fixes n :: int
  assumes x: "0 < x" and le: "x \<le> of_int n * (1 - 1 / 2 ^ 53)" and n: "1 \<le> n" "n \<le> 2 ^ 53"
  shows "rounded x < of_int n"
proof -
  let ?k = "ilog2 x"
  let ?e = "exponent x"
  have n0: "(0::rat) < of_int n" using n(1) by simp
  have "of_int n * (1 - 1 / 2 ^ 53) < (of_int n :: rat) * 1"
    using n0 by (intro mult_strict_left_mono) simp_all
  with le have xn: "x < of_int n" by simp
  have "2 powi ?k \<le> x" by (rule ilog2_bounds(1) [OF x])
  also note xn
  also have "(of_int n :: rat) \<le> 2 ^ 53" using n(2) by (rule of_int_le_pow2)
  finally have "(2::rat) powi ?k < 2 powi 53" by simp
  then have k: "?k \<le> 52" using pow2_less_imp [of ?k 53] by simp
  then have e: "?e \<le> 0" by (simp add: exponent_def)
  define t where "t = nat (- ?e)"
  have et: "?e = - int t" using e by (simp add: t_def)
  have p: "(2::rat) powi ?e = 1 / 2 ^ t" by (simp add: et power_int_minus_divide)
  have q: "x / 2 powi ?e = x * 2 ^ t" by (simp add: p)
  define N where "N = n * 2 ^ t"
  have big: "(2::rat) ^ 52 < of_int n * 2 ^ t"
  proof (cases "- 1074 \<le> ?k - 52")
    case True
    then have "?e = ?k - 52" by (simp add: exponent_def)
    then have t: "int t = 52 - ?k" using et by simp
    have "(2::rat) ^ 52 = 2 powi (?k + int t)" by (simp add: t)
    also have "\<dots> = 2 powi ?k * 2 ^ t" by (simp add: power_int_add)
    also have "\<dots> \<le> x * 2 ^ t" using ilog2_bounds(1) [OF x] by (intro mult_right_mono) simp_all
    also have "\<dots> < of_int n * 2 ^ t" using xn by (intro mult_strict_right_mono) simp_all
    finally show ?thesis .
  next
    case False
    then have "?e = - 1074" by (simp add: exponent_def)
    then have t: "t = 1074" by (simp add: t_def)
    have "(2::rat) ^ 52 < 2 ^ 1074" by (rule power_strict_increasing) simp_all
    also have "\<dots> = 1 * 2 ^ t" by (simp add: t)
    also have "\<dots> \<le> of_int n * 2 ^ t" using n(1) by (intro mult_right_mono) simp_all
    finally show ?thesis .
  qed
  have "x * 2 ^ t \<le> of_int n * (1 - 1 / 2 ^ 53) * 2 ^ t"
    using le by (intro mult_right_mono) simp_all
  also have "\<dots> = of_int n * 2 ^ t - of_int n * 2 ^ t / 2 ^ 53"
    by (simp add: algebra_simps)
  also have "\<dots> < of_int n * 2 ^ t - 1 / 2"
  proof -
    have "(1::rat) / 2 = 2 ^ 52 / 2 ^ 53" by simp
    also have "\<dots> < of_int n * 2 ^ t / 2 ^ 53" using big by (intro divide_strict_right_mono) simp_all
    finally show ?thesis by simp
  qed
  finally have "x / 2 powi ?e < of_int N - 1 / 2" by (simp add: q N_def)
  then have "nearest_even (x / 2 powi ?e) \<le> N - 1" by (rule nearest_even_below)
  then have "(of_int (nearest_even (x / 2 powi ?e)) :: rat) \<le> of_int (N - 1)"
    by (simp only: of_int_le_iff)
  then have "rounded x \<le> of_int (N - 1) * 2 powi ?e"
    unfolding rounded_def by (intro mult_right_mono) simp_all
  also have "\<dots> = of_int n - 1 / 2 ^ t" by (simp add: N_def p field_simps)
  also have "\<dots> < of_int n" by simp
  finally show ?thesis .
qed

lemma binary64_below_one:
  assumes rep: "round64 r = Fin r" and r: "0 \<le> r" "r < 1"
  shows "r \<le> 1 - 1 / 2 ^ 53"
proof (rule ccontr)
  assume "\<not> r \<le> 1 - 1 / 2 ^ 53"
  then have gt: "1 - 1 / 2 ^ 53 < r" by simp
  have half: "1 / 2 \<le> r"
  proof -
    have "(1::rat) / 2 \<le> 1 - 1 / 2 ^ 53" by simp
    with gt show ?thesis by simp
  qed
  then have pos: "0 < r" by simp
  have "ilog2 r = - 1" using half r(2) by (intro ilog2_eq) simp_all
  then have e: "exponent r = - 53" by (simp add: exponent_def)
  define m where "m = nearest_even (r / 2 powi exponent r)"
  have "rounded r = r"
    using rep by (simp add: round64_pos [OF pos] split: if_splits)
  then have "of_int m * 2 powi (- 53) = r" by (simp add: rounded_def m_def e)
  then have m: "of_int m = r * 2 ^ 53" by (simp add: power_int_minus_divide field_simps)
  have "r * 2 ^ 53 < 1 * 2 ^ 53" using r(2) by (intro mult_strict_right_mono) simp_all
  then have "(of_int m :: rat) < of_int (2 ^ 53)" by (simp add: m)
  then have hi: "m < 2 ^ 53" by (simp only: of_int_less_iff)
  have "(1 - 1 / 2 ^ 53) * 2 ^ 53 < r * 2 ^ 53" using gt by (intro mult_strict_right_mono) simp_all
  then have "(of_int (2 ^ 53 - 1) :: rat) < of_int m" by (simp add: m)
  then have lo: "2 ^ 53 - 1 < m" by (simp only: of_int_less_iff)
  from lo hi show False by simp
qed


lemma round64_numeral [simp]:
  "(numeral k :: int) \<le> 2 ^ 53 \<Longrightarrow> round64 (numeral k) = Fin (numeral k)"
  "(numeral k :: int) \<le> 2 ^ 53 \<Longrightarrow> round64 (- numeral k) = Fin (- numeral k)"
  using round64_int [of "numeral k"] round64_int [of "- numeral k"] by simp_all

lemma round64_one [simp]: "round64 1 = Fin 1" "round64 (- 1) = Fin (- 1)"
  using round64_int [of 1] round64_int [of "- 1"] by simp_all

lemma num_add_int:
  assumes "\<bar>i + j\<bar> \<le> 2 ^ 53"
  shows "num_add (Fin (of_int i)) (Fin (of_int j)) = Fin (of_int (i + j))"
  using round64_int [OF assms] by (simp add: num_add_def is_infinite_def)

lemma num_sub_int:
  assumes "\<bar>i - j\<bar> \<le> 2 ^ 53"
  shows "num_sub (Fin (of_int i)) (Fin (of_int j)) = Fin (of_int (i - j))"
  using round64_int [OF assms] by (simp add: num_sub_def num_neg_def num_add_def is_infinite_def)

lemma num_mul_draw:
  fixes n :: int
  assumes "is_binary64 r" and "0 \<le> r" and "r < 1" and "1 \<le> n" and "n \<le> 2 ^ 53"
  shows "\<exists>y. num_mul (Fin r) (Fin (of_int n)) = Fin y \<and> 0 \<le> y \<and> y < of_int n"
proof (cases "r = 0")
  case True
  then show ?thesis
    using assms(4) by (simp add: num_mul_def is_infinite_def is_zero_def negative_def signed_fin_def)
next
  case False
  then have r: "0 < r" using assms(2) by simp
  have n: "(0::rat) < of_int n" using assms(4) by simp
  let ?x = "r * of_int n"
  have x: "0 < ?x" using r n by simp
  have "r \<le> 1 - 1 / 2 ^ 53"
    using assms(1-3) by (intro binary64_below_one) (simp_all add: is_binary64_def)
  then have "?x \<le> (1 - 1 / 2 ^ 53) * of_int n"
    using n by (intro mult_right_mono) simp_all
  then have le: "?x \<le> of_int n * (1 - 1 / 2 ^ 53)" by (simp add: mult.commute)
  have below: "rounded ?x < of_int n"
    using x le assms(4,5) by (rule rounded_below_int)
  have "(of_int n :: rat) \<le> 2 ^ 53" using assms(5) by (rule of_int_le_pow2)
  also have "(2::rat) ^ 53 < 2 ^ 1024" by (rule power_strict_increasing) simp_all
  finally have "rounded ?x < 2 ^ 1024" using below by simp
  then have "round64 ?x = Fin (rounded ?x)"
    by (simp only: round64_pos [OF x] not_le [symmetric] if_False)
  moreover have "num_mul (Fin r) (Fin (of_int n)) = round64 ?x"
    using r n by (simp add: num_mul_def is_infinite_def is_zero_def negative_def magnitude_def)
  ultimately show ?thesis
    using rounded_nonneg [OF x] below by simp
qed

lemma pow2_double: "(2::rat) ^ n + 2 ^ n = 2 ^ Suc n"
  by simp

lemma is_binary64_half: "is_binary64 (1 / 2)"
proof -
  have "ilog2 (1 / 2) = - 1" by (intro ilog2_eq) simp_all
  then have e: "exponent (1 / 2) = - 53" by (simp add: exponent_def)
  have "(1 / 2 :: rat) / 2 powi exponent (1 / 2) = of_int (2 ^ 52)"
    by (simp add: e power_int_minus_divide)
  then have "round64 (1 / 2) = Fin (1 / 2)"
    by (intro round64_exact(1)) simp_all
  then show ?thesis by (simp add: is_binary64_def)
qed

lemma is_binary64_pow2:
  assumes "n \<le> 1023"
  shows "is_binary64 (2 ^ n)"
proof -
  let ?a = "(2::rat) ^ n"
  have "ilog2 ?a = int n" by (intro ilog2_eq) (simp_all add: power_int_add)
  then have e: "exponent ?a = int n - 52" by (simp add: exponent_def)
  have "?a / 2 powi exponent ?a = 2 powi int n / 2 powi (int n - 52)" by (simp add: e)
  also have "\<dots> = 2 powi (int n - (int n - 52))" by (rule power_int_diff [symmetric]) simp
  also have "\<dots> = of_int (2 ^ 52)" by simp
  finally have q: "?a / 2 powi exponent ?a = of_int (2 ^ 52)" .
  have "?a < 2 ^ 1024" using assms by (intro power_strict_increasing) simp_all
  then have "round64 ?a = Fin ?a"
    by (intro round64_exact(1) [OF _ _ q]) simp_all
  then show ?thesis by (simp add: is_binary64_def)
qed

lemma num_add_PInf: "b \<noteq> NInf \<Longrightarrow> b \<noteq> NaN \<Longrightarrow> num_add PInf b = PInf"
  by (simp add: num_add_def is_infinite_def)

lemma num_mul_PInf: "0 < r \<Longrightarrow> num_mul (Fin r) PInf = PInf"
  by (simp add: num_mul_def is_infinite_def is_zero_def negative_def signed_inf_def)


lemma math_max_zero_other:
  "math_max (Fin 0) NegZero = Fin 0" "math_max (Fin 0) NInf = Fin 0"
  "math_max (Fin 0) PInf = PInf" "math_max (Fin 0) NaN = NaN"
  by (simp_all add: math_max_def num_less_def)

text \<open>
  An example of rounding: the binary64 value nearest to \<open>0.6\<close>, times \<open>5\<close>, is \<open>3\<close>, although
  the exact product is below \<open>3\<close>.
\<close>

lemma num_mul_rounds_up:
  "num_mul (Fin (5404319552844595 / 2 ^ 53)) (Fin 5) = Fin 3 \<and>
   \<lfloor>5404319552844595 / 2 ^ 53 * 5 :: rat\<rfloor> = 2"
proof -
  let ?x = "5404319552844595 / 2 ^ 53 * 5 :: rat"
  have x: "0 < ?x" by simp
  have "ilog2 ?x = 1" by (intro ilog2_eq) simp_all
  then have e: "exponent ?x = - 51" by (simp add: exponent_def)
  have q: "?x / 2 powi (- 51) = 27021597764222975 / 4" by (simp add: power_int_minus_divide)
  have "\<lfloor>27021597764222975 / 4 :: rat\<rfloor> = 6755399441055743"
    by (rule floor_unique) simp_all
  then have "nearest_even (27021597764222975 / 4) = 6755399441055744"
    by (simp add: nearest_even_def Let_def)
  then have "rounded ?x = 3"
    by (simp only: rounded_def e q) (simp add: power_int_minus_divide)
  then have "round64 ?x = Fin 3"
    by (simp only: round64_pos [OF x]) simp
  moreover have "num_mul (Fin (5404319552844595 / 2 ^ 53)) (Fin 5) = round64 ?x"
    by (simp add: num_mul_def is_infinite_def is_zero_def negative_def magnitude_def)
  moreover have "\<lfloor>?x\<rfloor> = 2" by (rule floor_unique) simp_all
  ultimately show ?thesis by simp
qed

section \<open>Basic facts about the operations\<close>

lemmas monad_defs = ret_def throw_def bnd_def try_catch_def console_error_def lift_def

lemma and_then_Inr [simp]: "and_then (Inr x) f = f x"
  by (simp add: and_then_def)

lemma and_then_Inl [simp]: "and_then (Inl e) f = Inl e"
  by (simp add: and_then_def)

lemma to_primitive_Num [simp]: "to_primitive H (Num n) = Inr (Num n)"
  by (simp add: to_primitive_def)

lemma to_number_Num [simp]: "to_number H (Num n) = Inr n"
  by (simp add: to_number_def)

lemma js_plus_Num [simp]: "js_plus H (Num a) (Num b) = Inr (Num (num_add a b))"
  by (simp add: js_plus_def is_string_def)

lemma js_minus_Num [simp]: "js_minus H (Num a) (Num b) = Inr (Num (num_sub a b))"
  by (simp add: js_minus_def)

lemma js_times_Num [simp]: "js_times H (Num a) (Num b) = Inr (Num (num_mul a b))"
  by (simp add: js_times_def)

lemma js_divide_Num [simp]: "js_divide H (Num a) (Num b) = Inr (Num (num_div a b))"
  by (simp add: js_divide_def)

lemma Math_max_Num [simp]: "Math_max H (Num a) (Num b) = Inr (Num (math_max a b))"
  by (simp add: Math_max_def)

lemma Math_floor_Num [simp]: "Math_floor H (Num a) = Inr (Num (math_floor a))"
  by (simp add: Math_floor_def)

lemma js_plus_prim:
  assumes "js_plus H a b = Inr r"
  shows "\<not> is_range r" and "r \<noteq> Null"
  using assms
  by (auto simp: js_plus_def and_then_def is_range_def split: sum.splits if_splits)

lemma num_div_zero:
  "is_zero z \<Longrightarrow> num_div x z = PInf \<or> num_div x z = NInf \<or> num_div x z = NaN"
  by (auto simp: num_div_def signed_inf_def)

lemma range_given_eq:
  "range_given v w = (if v = Null then (Inl TypeError, w) else (Inr (is_range v), w))"
  by (cases v)
     (auto simp: range_given_def typeof_def member_def monad_defs is_range_def
           split: option.splits)

lemma randomize_eq:
  "randomize H mn mx w =
     (and_then (js_minus H mx mn) (\<lambda>d.
      and_then (js_plus H d (Num (Fin 1))) (\<lambda>n.
      and_then (js_times H (Num (Fin (random H (draws w)))) n) (\<lambda>p.
      and_then (Math_floor H p) (\<lambda>f.
      js_plus H f mn)))),
      w\<lparr>draws := Suc (draws w)\<rparr>)"
  by (simp add: randomize_def Math_random_def monad_defs)

lemma randomize_prim:
  assumes "randomize H mn mx w = (Inr r, w1)"
  shows "\<not> is_range r" and "r \<noteq> Null"
  using assms
  by (auto simp: randomize_eq and_then_def split: sum.splits dest: js_plus_prim)

lemma randomize_Num:
  "\<exists>n. randomize H (Num a) (Num b) w = (Inr (Num n), w\<lparr>draws := Suc (draws w)\<rparr>)"
  by (simp add: randomize_eq)

lemma resolve_eq:
  "resolve H v w =
     (if v = Null then (Inl TypeError, w)
      else if is_range v then randomize H (field v ''min'') (field v ''max'') w
      else (Inr v, w))"
  by (cases v)
     (auto simp: resolve_def range_given_eq member_def monad_defs is_range_def field_def
           split: option.splits)

lemma resolve_idem:
  assumes "resolve H v w = (Inr r, w1)"
  shows "resolve H r w1 = (Inr r, w1)"
  using assms by (auto simp: resolve_eq split: if_splits dest: randomize_prim)

lemma resolve_amount:
  assumes "is_amount v"
  shows "\<exists>r w1. resolve H v w = (Inr r, w1)"
proof (cases v)
  case (Num n)
  then show ?thesis by (simp add: resolve_eq is_range_def)
next
  case (Obj ps)
  then obtain a b where ab: "map_of ps ''min'' = Some (Num a)" "map_of ps ''max'' = Some (Num b)"
    using assms by (auto simp: is_amount_def split: option.splits jsval.splits)
  then have "resolve H v w = randomize H (Num a) (Num b) w"
    using Obj by (simp add: resolve_eq is_range_def field_def)
  then show ?thesis using randomize_Num [of H a b w] by auto
qed (use assms in \<open>simp_all add: is_amount_def\<close>)

lemma resolve_twice:
  assumes "resolve H v w = (Inr r, w1)"
  shows "bnd (resolve H v) (\<lambda>v'. try_catch (bnd (resolve H v') body) h) w
         = try_catch (bnd (resolve H v) body) h w"
proof -
  have "resolve H r w1 = (Inr r, w1)"
    using assms by (rule resolve_idem)
  then show ?thesis
    using assms by (simp add: bnd_def try_catch_def)
qed

lemma get_eq:
  "get H key w =
     (case fault H (GetItem key) (storage w) of
        Some e \<Rightarrow>
          (Inr (Num (Fin 0)),
           w\<lparr>console := console w @ [(''Error getting key '' @ quoted key @ '':'', e)]\<rparr>)
      | None \<Rightarrow>
          (case storage w key of
             None \<Rightarrow> (Inr (Num (Fin 0)), w)
           | Some Invalid \<Rightarrow>
               (Inr (Num (Fin 0)),
                w\<lparr>console := console w
                     @ [(''Error getting key '' @ quoted key @ '':'', SyntaxError)]\<rparr>)
           | Some (Valid j) \<Rightarrow> (Inr (if revive j = Null then Num (Fin 0) else revive j), w)))"
  by (auto simp: get_def localStorage_getItem_def JSON_parse_def monad_defs
           split: option.splits stored.splits)

lemma get_never_throws: "\<exists>v w'. get H key w = (Inr v, w')"
  by (simp add: get_eq split: option.splits stored.splits)

lemma try_catch_log:
  "\<exists>w'. try_catch m (\<lambda>error. console_error msg error) w = (Inr (), w')"
  by (cases "m w") (auto simp: monad_defs split: sum.splits)

lemma set_eco_never_throws: "\<exists>w'. set_eco H key v w = (Inr (), w')"
  unfolding set_eco_def by (rule try_catch_log)

lemma try_catch_returning:
  "m w = (Inr x, w') \<Longrightarrow> try_catch m h w = (Inr x, w')"
  by (simp add: try_catch_def)

lemma try_catch_handled:
  assumes "\<And>e w'. \<not> propagates (h e) w'"
  shows "\<not> propagates (try_catch m h) w"
proof (cases "m w")
  case (Pair r w1)
  then show ?thesis
    using assms [of _ w1] by (cases r) (simp_all add: propagates_def try_catch_def)
qed

lemma console_error_returns: "\<not> propagates (console_error msg e) w"
  by (simp add: propagates_def console_error_def)

lemma console_error_then_ret: "\<not> propagates (bnd (console_error msg e) (\<lambda>_. ret x)) w"
  by (simp add: propagates_def console_error_def bnd_def ret_def)

lemma set_eco_direct:
  assumes "v \<noteq> Null" and "\<not> is_range v"
  shows "set_eco H key v w =
     (case fault H (SetItem key (string_of (JSON_stringify v))) (storage w) of
        Some e \<Rightarrow>
          (Inr (), w\<lparr>console := console w @ [(''Error setting key '' @ quoted key @ '':'', e)]\<rparr>)
      | None \<Rightarrow>
          (Inr (), w\<lparr>storage := (storage w)(key \<mapsto> string_of (JSON_stringify v))\<rparr>))"
  using assms
  by (simp add: set_eco_def resolve_eq localStorage_setItem_def monad_defs split: option.splits)

lemma set_eco_num:
  "set_eco H key (Num n) w =
     (case fault H (SetItem key (string_of (JSON_stringify (Num n)))) (storage w) of
        Some e \<Rightarrow>
          (Inr (), w\<lparr>console := console w @ [(''Error setting key '' @ quoted key @ '':'', e)]\<rparr>)
      | None \<Rightarrow>
          (Inr (), w\<lparr>storage := (storage w)(key \<mapsto> string_of (JSON_stringify (Num n)))\<rparr>))"
  by (simp add: set_eco_direct is_range_def)

lemma scalar_total:
  "\<exists>w'. set_eco H key v w = (Inr (), w')"
  "\<exists>w'. add H key v w = (Inr (), w')"
  "\<exists>w'. sub H key v w = (Inr (), w')"
  "\<exists>w'. mul H key v w = (Inr (), w')"
  "\<exists>w'. div_eco H key v w = (Inr (), w')"
  unfolding set_eco_def add_def sub_def mul_def div_eco_def
  by (rule try_catch_log)+

lemma scalar_after_resolve:
  assumes "resolve H v w = (Inr r, w1)"
  shows "bnd (resolve H v) (\<lambda>v'. set_eco H key v') w = set_eco H key v w"
    and "bnd (resolve H v) (\<lambda>v'. add H key v') w = add H key v w"
    and "bnd (resolve H v) (\<lambda>v'. sub H key v') w = sub H key v w"
    and "bnd (resolve H v) (\<lambda>v'. mul H key v') w = mul H key v w"
    and "bnd (resolve H v) (\<lambda>v'. div_eco H key v') w = div_eco H key v w"
  unfolding set_eco_def add_def sub_def mul_def div_eco_def
  by (rule resolve_twice [OF assms])+


lemma div_num:
  assumes "get H key w = (Inr (Num c), w1)"
  shows "div_eco H key (Num a) w = set_eco H key (Num (math_max (Fin 0) (num_div c a))) w1"
proof -
  obtain w2 where s: "set_eco H key (Num (math_max (Fin 0) (num_div c a))) w1 = (Inr (), w2)"
    using set_eco_never_throws by blast
  show ?thesis
    unfolding div_eco_def
    by (rule trans [OF try_catch_returning [where x = "()" and w' = w2]])
       (simp_all add: bnd_def lift_def resolve_eq is_range_def assms s)
qed

lemma add_num:
  assumes "get H key w = (Inr (Num c), w1)"
  shows "add H key (Num a) w = set_eco H key (Num (num_add c a)) w1"
proof -
  obtain w2 where s: "set_eco H key (Num (num_add c a)) w1 = (Inr (), w2)"
    using set_eco_never_throws by blast
  show ?thesis
    unfolding add_def
    by (rule trans [OF try_catch_returning [where x = "()" and w' = w2]])
       (simp_all add: bnd_def lift_def resolve_eq is_range_def assms s)
qed

lemma brokenD: "broken H \<Longrightarrow> fault H a m = None \<Longrightarrow> False"
  unfolding broken_def by blast

lemma accumulate_zero:
  assumes "broken H"
  shows "\<exists>w'. accumulate (\<lambda>result key. bnd (get H key) (\<lambda>v. ret (assign result key v))) keys acc w
           = (Inr (\<lambda>k. if k \<in> set keys \<and> k \<noteq> ''__proto__'' then Some (Num (Fin 0)) else acc k), w')"
proof (induction keys arbitrary: acc w)
  case Nil
  then show ?case by (simp add: ret_def)
next
  case (Cons key keys)
  obtain e where e: "fault H (GetItem key) (storage w) = Some e"
    using assms brokenD by (cases "fault H (GetItem key) (storage w)") auto
  let ?w1 = "w\<lparr>console := console w @ [(''Error getting key '' @ quoted key @ '':'', e)]\<rparr>"
  have g: "get H key w = (Inr (Num (Fin 0)), ?w1)"
    by (simp add: get_eq e)
  obtain w' where ih: "accumulate (\<lambda>result key. bnd (get H key) (\<lambda>v. ret (assign result key v))) keys
        (assign acc key (Num (Fin 0))) ?w1
      = (Inr (\<lambda>k. if k \<in> set keys \<and> k \<noteq> ''__proto__'' then Some (Num (Fin 0))
                   else assign acc key (Num (Fin 0)) k), w')"
    using Cons.IH by blast
  have "(\<lambda>k. if k \<in> set keys \<and> k \<noteq> ''__proto__'' then Some (Num (Fin 0))
                   else assign acc key (Num (Fin 0)) k)
        = (\<lambda>k. if k \<in> set (key # keys) \<and> k \<noteq> ''__proto__'' then Some (Num (Fin 0)) else acc k)"
    by (auto simp: assign_def fun_eq_iff)
  then show ?case
    using ih by (simp add: bnd_def g ret_def)
qed

lemma each_in_order:
  assumes total: "\<And>key v w. \<exists>w'. X key v w = (Inr (), w')"
    and same: "\<And>key v w. (key, v) \<in> set items \<Longrightarrow> bnd (resolve H v) (\<lambda>v'. X key v') w = X key v w"
  shows "each (\<lambda>(key, v). bnd (resolve H v) (\<lambda>v'. X key v')) items w
         = (Inr (), fold (\<lambda>(key, v) w'. snd (X key v w')) items w)"
  using same
proof (induction items arbitrary: w)
  case Nil
  then show ?case by (simp add: ret_def)
next
  case (Cons item items)
  obtain key v where item: "item = (key, v)" by (cases item)
  obtain w1 where x: "X key v w = (Inr (), w1)"
    using total by blast
  have first: "bnd (resolve H v) (\<lambda>v'. X key v') w = (Inr (), w1)"
    using Cons.prems [of key v w] x by (simp add: item)
  have rest: "each (\<lambda>(key, v). bnd (resolve H v) (\<lambda>v'. X key v')) items w1
         = (Inr (), fold (\<lambda>(key, v) w'. snd (X key v w')) items w1)"
    by (rule Cons.IH) (simp add: Cons.prems)
  show ?case
    using first rest x by (simp add: item bnd_def)
qed

subsection \<open>Entries that a computation keeps\<close>

named_theorems keeps_intros

lemma keeps_ret [keeps_intros]: "keeps P (ret x)"
  by (simp add: keeps_def ret_def)

lemma keeps_throw [keeps_intros]: "keeps P (throw e)"
  by (simp add: keeps_def throw_def)

lemma keeps_lift [keeps_intros]: "keeps P (lift r)"
  by (simp add: keeps_def lift_def)

lemma keeps_bnd [keeps_intros]:
  assumes "keeps P m" and "\<And>x. keeps P (f x)"
  shows "keeps P (bnd m f)"
  unfolding keeps_def
proof (intro allI impI)
  fix w k assume k: "P k"
  obtain r w1 where m: "m w = (r, w1)" by (cases "m w")
  have s1: "storage w1 k = storage w k"
    using assms(1) k m by (auto simp: keeps_def dest: spec [of _ w])
  show "storage (snd (bnd m f w)) k = storage w k"
  proof (cases r)
    case (Inl e)
    then show ?thesis using m s1 by (simp add: bnd_def)
  next
    case (Inr x)
    have "storage (snd (f x w1)) k = storage w1 k"
      using assms(2) [of x] k by (simp add: keeps_def)
    then show ?thesis using m s1 Inr by (simp add: bnd_def)
  qed
qed

lemma keeps_try_catch [keeps_intros]:
  assumes "keeps P m" and "\<And>e. keeps P (h e)"
  shows "keeps P (try_catch m h)"
  unfolding keeps_def
proof (intro allI impI)
  fix w k assume k: "P k"
  obtain r w1 where m: "m w = (r, w1)" by (cases "m w")
  have s1: "storage w1 k = storage w k"
    using assms(1) k m by (auto simp: keeps_def dest: spec [of _ w])
  show "storage (snd (try_catch m h w)) k = storage w k"
  proof (cases r)
    case (Inl e)
    have "storage (snd (h e w1)) k = storage w1 k"
      using assms(2) [of e] k by (simp add: keeps_def)
    then show ?thesis using m s1 Inl by (simp add: try_catch_def)
  next
    case (Inr x)
    then show ?thesis using m s1 by (simp add: try_catch_def)
  qed
qed

lemma keeps_if [keeps_intros]:
  "keeps P m \<Longrightarrow> keeps P n \<Longrightarrow> keeps P (if c then m else n)"
  by simp

lemma keeps_console_error [keeps_intros]: "keeps P (console_error msg e)"
  by (simp add: keeps_def console_error_def)

lemma keeps_getItem [keeps_intros]: "keeps P (localStorage_getItem H key)"
  by (simp add: keeps_def localStorage_getItem_def split: option.splits)

lemma keeps_JSON_parse [keeps_intros]: "keeps P (JSON_parse raw)"
  by (simp add: keeps_def JSON_parse_def ret_def throw_def split: option.splits stored.splits)

lemma keeps_Math_random [keeps_intros]: "keeps P (Math_random H)"
  by (simp add: keeps_def Math_random_def)

lemma keeps_member [keeps_intros]: "keeps P (member v name)"
  by (simp add: keeps_def member_def ret_def throw_def split: jsval.splits)

lemma keeps_setItem:
  "\<not> P key \<or> broken H \<Longrightarrow> keeps P (localStorage_setItem H key v)"
  by (auto simp: keeps_def localStorage_setItem_def split: option.splits dest: brokenD)

lemma keeps_removeItem:
  "\<not> P key \<or> broken H \<Longrightarrow> keeps P (localStorage_removeItem H key)"
  by (auto simp: keeps_def localStorage_removeItem_def split: option.splits dest: brokenD)

lemma keeps_clear: "broken H \<Longrightarrow> keeps P (localStorage_clear H)"
  by (auto simp: keeps_def localStorage_clear_def split: option.splits dest: brokenD)

lemma keeps_get [keeps_intros]: "keeps P (get H key)"
  unfolding get_def by (intro keeps_intros)

lemma keeps_randomize [keeps_intros]: "keeps P (randomize H mn mx)"
  unfolding randomize_def by (intro keeps_intros)

lemma keeps_range_given [keeps_intros]: "keeps P (range_given v)"
  unfolding range_given_def by (intro keeps_intros)

lemma keeps_resolve [keeps_intros]: "keeps P (resolve H v)"
  unfolding resolve_def by (intro keeps_intros)

lemma keeps_set_eco: "\<not> P key \<or> broken H \<Longrightarrow> keeps P (set_eco H key v)"
  unfolding set_eco_def by (intro keeps_intros keeps_setItem)

lemma keeps_add: "\<not> P key \<or> broken H \<Longrightarrow> keeps P (add H key v)"
  unfolding add_def by (intro keeps_intros keeps_set_eco)

lemma keeps_sub: "\<not> P key \<or> broken H \<Longrightarrow> keeps P (sub H key v)"
  unfolding sub_def by (intro keeps_intros keeps_set_eco)

lemma keeps_mul: "\<not> P key \<or> broken H \<Longrightarrow> keeps P (mul H key v)"
  unfolding mul_def by (intro keeps_intros keeps_set_eco)

lemma keeps_div_eco: "\<not> P key \<or> broken H \<Longrightarrow> keeps P (div_eco H key v)"
  unfolding div_eco_def by (intro keeps_intros keeps_set_eco)

lemma keeps_del: "\<not> P key \<or> broken H \<Longrightarrow> keeps P (del H key)"
  unfolding del_def by (intro keeps_intros keeps_removeItem)

lemma keeps_res: "broken H \<Longrightarrow> keeps P (res H)"
  unfolding res_def by (intro keeps_intros keeps_clear)

lemma keeps_each:
  "(\<And>x. x \<in> set xs \<Longrightarrow> keeps P (f x)) \<Longrightarrow> keeps P (each f xs)"
  by (induction xs) (auto intro!: keeps_intros)

lemma keeps_forEach:
  "(\<And>x. keeps P (f x)) \<Longrightarrow> keeps P (forEach items f)"
  unfolding forEach_def by (cases items) (auto intro!: keeps_intros keeps_each)

lemma keeps_accumulate:
  "(\<And>acc x. keeps P (f acc x)) \<Longrightarrow> keeps P (accumulate f xs acc)"
  by (induction xs arbitrary: acc) (auto intro!: keeps_intros)

lemma keeps_batchGet: "keeps P (batchGet H keys)"
  unfolding batchGet_def reduce_def
  by (cases keys) (auto intro!: keeps_intros keeps_accumulate)

lemma keeps_batch_broken:
  assumes "\<And>key v. keeps P (X key v)"
  shows "keeps P (try_catch (forEach items (\<lambda>(key, v). bnd (resolve H v) (\<lambda>v'. X key v'))) (\<lambda>error. console_error msg error))"
  by (intro keeps_intros keeps_forEach) (auto intro!: keeps_intros assms)

lemma keeps_all: "keeps (\<lambda>k. True) m \<Longrightarrow> storage (snd (m w)) = storage w"
  by (auto simp: keeps_def)

lemma keeps_other: "keeps (\<lambda>k'. k' \<noteq> k) m \<Longrightarrow> k' \<noteq> k \<Longrightarrow> storage (snd (m w)) k' = storage w k'"
  by (auto simp: keeps_def)

section \<open>Reading\<close>

text \<open>
  C2. For every key, \<open>get\<close> returns normally, whatever the store holds or throws. It
  returns 0 when the key is absent, when the stored text is not JSON, and when the text
  decodes to \<^verbatim>\<open>null\<close>; in particular a key that was never written reads as 0. A text
  that is not JSON makes \<^verbatim>\<open>JSON.parse\<close> throw: the exception is caught, printed with
  \<^verbatim>\<open>console.error\<close>, and 0 is returned; the same happens when the store itself throws.
\<close>

theorem get_zero_on_missing_or_undecodable:
  "(\<exists>v w'. get H key w = (Inr v, w')) \<and>
   (storage w key = None \<or> storage w key = Some Invalid
      \<or> (\<exists>j. storage w key = Some (Valid j) \<and> revive j = Null)
      \<longrightarrow> fst (get H key w) = Inr (Num (Fin 0))) \<and>
   (fault H (GetItem key) (storage w) = None \<and> storage w key = Some Invalid
      \<longrightarrow> get H key w =
            (Inr (Num (Fin 0)),
             w\<lparr>console := console w
                  @ [(''Error getting key '' @ quoted key @ '':'', SyntaxError)]\<rparr>)) \<and>
   (\<forall>e. fault H (GetItem key) (storage w) = Some e
      \<longrightarrow> get H key w =
            (Inr (Num (Fin 0)),
             w\<lparr>console := console w @ [(''Error getting key '' @ quoted key @ '':'', e)]\<rparr>))"
proof (intro conjI)
  show "\<exists>v w'. get H key w = (Inr v, w')"
    by (rule get_never_throws)
next
  show "storage w key = None \<or> storage w key = Some Invalid
      \<or> (\<exists>j. storage w key = Some (Valid j) \<and> revive j = Null)
      \<longrightarrow> fst (get H key w) = Inr (Num (Fin 0))"
    by (auto simp: get_eq split: option.splits)
qed (simp_all add: get_eq)

theorem get_zero_witness:
  "storage (fresh\<lparr>storage := [''gold'' \<mapsto> Invalid]\<rparr>) ''gold'' = Some Invalid \<and>
   fst (get plain_host ''gold'' (fresh\<lparr>storage := [''gold'' \<mapsto> Invalid]\<rparr>)) = Inr (Num (Fin 0)) \<and>
   fault plain_host (GetItem ''gold'') (storage (fresh\<lparr>storage := [''gold'' \<mapsto> Invalid]\<rparr>)) = None \<and>
   console (snd (get plain_host ''gold'' (fresh\<lparr>storage := [''gold'' \<mapsto> Invalid]\<rparr>)))
     = [(''Error getting key '' @ quoted ''gold'' @ '':'', SyntaxError)] \<and>
   fault broken_host (GetItem ''gold'') (storage fresh) = Some SecurityError \<and>
   get broken_host ''gold'' fresh
     = (Inr (Num (Fin 0)),
        fresh\<lparr>console := [(''Error getting key '' @ quoted ''gold'' @ '':'', SecurityError)]\<rparr>)"
  using get_zero_on_missing_or_undecodable
          [of plain_host "''gold''" "fresh\<lparr>storage := [''gold'' \<mapsto> Invalid]\<rparr>"]
        get_zero_on_missing_or_undecodable [of broken_host "''gold''" fresh]
  by (simp add: fresh_def plain_host_def broken_host_def)

section \<open>Writing and reading back\<close>

text \<open>
  C1. On a store that does not throw, for every key \<open>k\<close> and every finite Number \<open>v\<close>,
  \<open>set(k, v)\<close> followed by \<open>get(k)\<close> returns a Number equal to \<open>v\<close> (\<^verbatim>\<open>===\<close>); it is
  \<open>v\<close> itself unless \<open>v\<close> is the negative zero, which is written as \<^verbatim>\<open>0\<close> and read back
  as the positive zero. The values that the encoding cannot represent (NaN and the
  infinities) are the exception: they are written as \<^verbatim>\<open>null\<close> and read back as 0.
\<close>

theorem set_then_get_returns_value:
  assumes "reliable H"
  shows "(is_finite v \<longrightarrow>
            (\<exists>r. fst (get H k (snd (set_eco H k (Num v) w))) = Inr (Num r)
                  \<and> num_equal r v \<and> (v \<noteq> NegZero \<longrightarrow> r = v))) \<and>
         (\<not> is_finite v \<longrightarrow>
            fst (get H k (snd (set_eco H k (Num v) w))) = Inr (Num (Fin 0)))"
  using assms
  by (cases v)
     (simp_all add: reliable_def set_eco_num get_eq string_of_def is_finite_def
        num_equal_def is_zero_def)

theorem set_then_get_witness:
  "reliable plain_host \<and> is_finite (Fin (5 / 2)) \<and>
   fst (get plain_host ''gold'' (snd (set_eco plain_host ''gold'' (Num (Fin (5 / 2))) fresh)))
     = Inr (Num (Fin (5 / 2))) \<and>
   \<not> is_finite PInf \<and>
   fst (get plain_host ''gold'' (snd (set_eco plain_host ''gold'' (Num PInf) fresh)))
     = Inr (Num (Fin 0))"
proof -
  have r: "reliable plain_host"
    by (simp add: reliable_def plain_host_def)
  show ?thesis
    using r set_then_get_returns_value [OF r, of "Fin (5 / 2)" "''gold''" fresh]
      set_then_get_returns_value [OF r, of PInf "''gold''" fresh]
    by (simp add: is_finite_def)
qed

lemma stringify_props:
  assumes "\<And>p. p \<in> set ps \<Longrightarrow> \<exists>j. JSON_stringify (snd p) = Some j \<and> revive j = snd p"
  shows "map (\<lambda>(k, j). (k, revive j))
           (concat (map (\<lambda>(k, x). case JSON_stringify x of None \<Rightarrow> [] | Some j \<Rightarrow> [(k, j)]) ps)) = ps"
  using assms
proof (induction ps)
  case Nil
  then show ?case by simp
next
  case (Cons p ps)
  obtain k x where p: "p = (k, x)" by (cases p)
  obtain j where j: "JSON_stringify x = Some j" "revive j = x"
    using Cons.prems [of p] by (auto simp: p)
  have "map (\<lambda>(k, j). (k, revive j))
           (concat (map (\<lambda>(k, x). case JSON_stringify x of None \<Rightarrow> [] | Some j \<Rightarrow> [(k, j)]) ps)) = ps"
    by (rule Cons.IH) (simp add: Cons.prems)
  then show ?case
    by (simp add: p j)
qed

lemma stringify_items:
  assumes "\<And>x. x \<in> set xs \<Longrightarrow> \<exists>j. JSON_stringify x = Some j \<and> revive j = x"
  shows "map revive (map (\<lambda>x. case JSON_stringify x of None \<Rightarrow> JNull | Some j \<Rightarrow> j) xs) = xs"
proof -
  have "revive (case JSON_stringify x of None \<Rightarrow> JNull | Some j \<Rightarrow> j) = x" if "x \<in> set xs" for x
    using assms [OF that] by auto
  then have "map (\<lambda>x. revive (case JSON_stringify x of None \<Rightarrow> JNull | Some j \<Rightarrow> j)) xs = xs"
    by (intro map_idI)
  then show ?thesis
    by (simp add: comp_def)
qed

lemma stringify_revive:
  "plain_data v \<Longrightarrow> \<exists>j. JSON_stringify v = Some j \<and> revive j = v"
proof (induction v)
  case (Num n)
  then show ?case by (cases n) simp_all
next
  case (Arr xs)
  have "map revive (map (\<lambda>x. case JSON_stringify x of None \<Rightarrow> JNull | Some j \<Rightarrow> j) xs) = xs"
    using Arr by (intro stringify_items) auto
  then show ?case by simp
next
  case (Obj ps)
  have "map (\<lambda>(k, j). (k, revive j))
           (concat (map (\<lambda>(k, x). case JSON_stringify x of None \<Rightarrow> [] | Some j \<Rightarrow> [(k, j)]) ps)) = ps"
  proof (rule stringify_props)
    fix p assume p: "p \<in> set ps"
    obtain k x where kx: "p = (k, x)" by (cases p)
    have "plain_data x" using Obj.prems p kx by auto
    moreover have "x \<in> Basic_BNFs.snds p" by (simp add: kx)
    ultimately show "\<exists>j. JSON_stringify (snd p) = Some j \<and> revive j = snd p"
      using Obj.IH [OF p] kx by simp
  qed
  then show ?case by simp
qed simp_all

text \<open>
  C10, as amended. \<open>set\<close> does not check that its argument is a Number. On a store that
  does not throw, every value that JSON represents exactly, other than \<^verbatim>\<open>null\<close> and other
  than an object with both \<^verbatim>\<open>min\<close> and \<^verbatim>\<open>max\<close> defined (a string, a boolean, an array
  or an object of strings, booleans, finite Numbers and \<^verbatim>\<open>null\<close>), is encoded and
  persisted as it is, and the next \<open>get\<close> of the key returns that value, not 0.
\<close>

theorem set_persists_plain_data:
  assumes "reliable H" and "plain_data v" and "v \<noteq> Null" and "\<not> is_range v"
  shows "(\<exists>j. storage (snd (set_eco H key v w)) key = Some (Valid j) \<and> revive j = v) \<and>
         fst (get H key (snd (set_eco H key v w))) = Inr v"
proof -
  obtain j where j: "JSON_stringify v = Some j" "revive j = v"
    using stringify_revive [OF assms(2)] by blast
  have f: "\<And>x m. fault H x m = None"
    using assms(1) by (simp add: reliable_def)
  have st: "storage (snd (set_eco H key v w)) key = Some (Valid j)"
    by (simp add: set_eco_direct [OF assms(3,4)] f j string_of_def)
  have "fst (get H key (snd (set_eco H key v w))) = Inr v"
    using assms(3) by (simp add: get_eq f st j)
  with st j show ?thesis by blast
qed

theorem set_persists_witness:
  "reliable plain_host \<and> plain_data (Str ''gem'') \<and> Str ''gem'' \<noteq> Null \<and> \<not> is_range (Str ''gem'') \<and>
   storage (snd (set_eco plain_host ''k'' (Str ''gem'') fresh)) ''k'' = Some (Valid (JStr ''gem'')) \<and>
   fst (get plain_host ''k'' (snd (set_eco plain_host ''k'' (Str ''gem'') fresh))) = Inr (Str ''gem'')"
proof -
  have h: "reliable plain_host" "plain_data (Str ''gem'')" "Str ''gem'' \<noteq> Null" "\<not> is_range (Str ''gem'')"
    by (simp_all add: reliable_def plain_host_def is_range_def)
  have s: "storage (snd (set_eco plain_host ''k'' (Str ''gem'') fresh)) ''k'' = Some (Valid (JStr ''gem''))"
    by (simp add: set_eco_direct is_range_def plain_host_def string_of_def)
  show ?thesis
    using h s set_persists_plain_data [OF h, of "''k''" fresh] by simp
qed

text \<open>
  C10, as stated for any value that is not such an object, fails: \<^verbatim>\<open>undefined\<close> is not an
  object, \<open>set(k, undefined)\<close> stores the text \<^verbatim>\<open>undefined\<close>, which is not JSON, and the
  next \<open>get(k)\<close> returns 0 and not \<^verbatim>\<open>undefined\<close>.
\<close>

theorem set_undefined_reads_zero:
  "typeof Undefined \<noteq> ''object'' \<and>
   storage (snd (set_eco plain_host ''k'' Undefined fresh)) ''k'' = Some Invalid \<and>
   fst (get plain_host ''k'' (snd (set_eco plain_host ''k'' Undefined fresh))) = Inr (Num (Fin 0)) \<and>
   fst (get plain_host ''k'' (snd (set_eco plain_host ''k'' Undefined fresh))) \<noteq> Inr Undefined"
  by (simp add: set_eco_direct is_range_def plain_host_def string_of_def get_eq typeof_def)

section \<open>Subtraction\<close>



section \<open>Division by zero\<close>

text \<open>
  C4, as amended. When \<open>div(key, amount)\<close> divides a Number balance by a zero, the
  quotient is \<open>Infinity\<close>, \<open>-Infinity\<close> or NaN by the rules of the language (the sign of a
  nonzero balance times the sign of the zero, NaN for a zero or NaN balance), and
  \<^verbatim>\<open>Math.max(0, _)\<close> leaves \<open>Infinity\<close> and NaN as they are. \<^verbatim>\<open>JSON.stringify\<close> then encodes
  both as \<^verbatim>\<open>null\<close>: what is persisted is the text \<^verbatim>\<open>null\<close> (the text \<^verbatim>\<open>0\<close> for
  \<open>-Infinity\<close>), and the next \<open>get\<close> returns 0, on every store that does not throw.
\<close>

theorem div_by_zero_reads_zero:
  assumes "reliable H" and "fst (get H k w) = Inr (Num c)" and "is_zero z"
  shows "(num_div c z = PInf \<or> num_div c z = NInf \<or> num_div c z = NaN) \<and>
         (\<forall>x. c = Fin x \<and> 0 < x \<longrightarrow> num_div c (Fin 0) = PInf \<and> num_div c NegZero = NInf) \<and>
         (\<forall>x. c = Fin x \<and> x < 0 \<longrightarrow> num_div c (Fin 0) = NInf \<and> num_div c NegZero = PInf) \<and>
         (is_zero c \<or> c = NaN \<longrightarrow> num_div c z = NaN) \<and>
         js_divide H (Num c) (Num z) = Inr (Num (num_div c z)) \<and>
         Math_max H (Num (Fin 0)) (Num PInf) = Inr (Num PInf) \<and>
         Math_max H (Num (Fin 0)) (Num NInf) = Inr (Num (Fin 0)) \<and>
         Math_max H (Num (Fin 0)) (Num NaN) = Inr (Num NaN) \<and>
         JSON_stringify (Num PInf) = Some JNull \<and>
         JSON_stringify (Num NaN) = Some JNull \<and>
         storage (snd (div_eco H k (Num z) w)) k
           = Some (Valid (if num_div c z = NInf then JNum (Fin 0) else JNull)) \<and>
         fst (get H k (snd (div_eco H k (Num z) w))) = Inr (Num (Fin 0))"
proof -
  obtain v w1 where "get H k w = (Inr v, w1)"
    using get_never_throws by blast
  with assms(2) have g: "get H k w = (Inr (Num c), w1)" by simp
  let ?q = "num_div c z"
  have q: "?q = PInf \<or> ?q = NInf \<or> ?q = NaN"
    using assms(3) by (rule num_div_zero)
  have s: "div_eco H k (Num z) w = set_eco H k (Num (math_max (Fin 0) ?q)) w1"
    by (rule div_num [OF g])
  have f: "\<And>x m. fault H x m = None"
    using assms(1) by (simp add: reliable_def)
  have st: "storage (snd (div_eco H k (Num z) w)) k
              = Some (Valid (if ?q = NInf then JNum (Fin 0) else JNull))"
    using q by (auto simp: s set_eco_num f math_max_zero_other string_of_def)
  have rd: "fst (get H k (snd (div_eco H k (Num z) w))) = Inr (Num (Fin 0))"
    by (simp add: get_eq f st)
  have signs:
    "\<forall>x. c = Fin x \<and> 0 < x \<longrightarrow> num_div c (Fin 0) = PInf \<and> num_div c NegZero = NInf"
    "\<forall>x. c = Fin x \<and> x < 0 \<longrightarrow> num_div c (Fin 0) = NInf \<and> num_div c NegZero = PInf"
    "is_zero c \<or> c = NaN \<longrightarrow> num_div c z = NaN"
    using assms(3)
    by (auto simp: num_div_def is_zero_def is_infinite_def negative_def signed_inf_def)
  show ?thesis
    using q st rd signs by (simp add: math_max_zero_other)
qed

theorem div_by_zero_witness:
  "reliable plain_host \<and>
   fst (get plain_host ''k'' (snd (set_eco plain_host ''k'' (Num (Fin 10)) fresh))) = Inr (Num (Fin 10)) \<and>
   is_zero (Fin 0) \<and> (0::rat) < 10 \<and>
   num_div (Fin 10) (Fin 0) = PInf \<and>
   storage (snd (div_eco plain_host ''k'' (Num (Fin 0)) (snd (set_eco plain_host ''k'' (Num (Fin 10)) fresh)))) ''k''
     = Some (Valid JNull) \<and>
   fst (get plain_host ''k'' (snd (div_eco plain_host ''k'' (Num (Fin 0)) (snd (set_eco plain_host ''k'' (Num (Fin 10)) fresh)))))
     = Inr (Num (Fin 0)) \<and>
   fst (get plain_host ''k'' (snd (set_eco plain_host ''k'' (Num (Fin 0)) fresh))) = Inr (Num (Fin 0)) \<and>
   num_div (Fin 0) (Fin 0) = NaN \<and>
   fst (get plain_host ''k'' (snd (div_eco plain_host ''k'' (Num (Fin 0)) (snd (set_eco plain_host ''k'' (Num (Fin 0)) fresh)))))
     = Inr (Num (Fin 0))"
proof -
  have r: "reliable plain_host"
    by (simp add: reliable_def plain_host_def)
  have g: "fst (get plain_host ''k'' (snd (set_eco plain_host ''k'' (Num (Fin 10)) fresh))) = Inr (Num (Fin 10))"
    and g0: "fst (get plain_host ''k'' (snd (set_eco plain_host ''k'' (Num (Fin 0)) fresh))) = Inr (Num (Fin 0))"
    by (simp_all add: set_eco_num get_eq plain_host_def fresh_def string_of_def)
  have z: "is_zero (Fin 0)"
    by (simp add: is_zero_def)
  note t = div_by_zero_reads_zero [OF r g z]
  note t0 = div_by_zero_reads_zero [OF r g0 z]
  have d: "num_div (Fin 10) (Fin 0) = PInf"
    using t [THEN conjunct2, THEN conjunct1, rule_format, of 10] by simp
  have d0: "num_div (Fin 0) (Fin 0) = NaN"
    using t0 z by simp
  show ?thesis
    using r g g0 z d d0 t t0 by simp
qed

text \<open>
  C4, as stated, fails: after \<open>set(k, 0)\<close> and \<open>div(k, 0)\<close> the clamped quotient is NaN,
  but the persisted text is \<^verbatim>\<open>null\<close> and \<open>get(k)\<close> returns 0, not NaN; after
  \<open>set(k, 10)\<close> and \<open>div(k, 0)\<close> the clamped quotient is \<open>Infinity\<close> and \<open>get(k)\<close> returns 0.
\<close>

theorem div_by_zero_not_passed_through:
  "and_then (js_divide plain_host (Num (Fin 0)) (Num (Fin 0))) (Math_max plain_host (Num (Fin 0)))
     = Inr (Num NaN) \<and>
   storage (snd (div_eco plain_host ''k'' (Num (Fin 0)) (snd (set_eco plain_host ''k'' (Num (Fin 0)) fresh)))) ''k''
     = Some (Valid JNull) \<and>
   fst (get plain_host ''k'' (snd (div_eco plain_host ''k'' (Num (Fin 0)) (snd (set_eco plain_host ''k'' (Num (Fin 0)) fresh)))))
     = Inr (Num (Fin 0)) \<and>
   and_then (js_divide plain_host (Num (Fin 10)) (Num (Fin 0))) (Math_max plain_host (Num (Fin 0)))
     = Inr (Num PInf) \<and>
   fst (get plain_host ''k'' (snd (div_eco plain_host ''k'' (Num (Fin 0)) (snd (set_eco plain_host ''k'' (Num (Fin 10)) fresh)))))
     = Inr (Num (Fin 0))"
proof -
  have g0: "get plain_host ''k'' (snd (set_eco plain_host ''k'' (Num (Fin 0)) fresh))
              = (Inr (Num (Fin 0)), snd (set_eco plain_host ''k'' (Num (Fin 0)) fresh))"
    by (simp add: set_eco_num get_eq plain_host_def fresh_def string_of_def)
  have g10: "get plain_host ''k'' (snd (set_eco plain_host ''k'' (Num (Fin 10)) fresh))
              = (Inr (Num (Fin 10)), snd (set_eco plain_host ''k'' (Num (Fin 10)) fresh))"
    by (simp add: set_eco_num get_eq plain_host_def fresh_def string_of_def)
  have q0: "num_div (Fin 0) (Fin 0) = NaN"
    by (simp add: num_div_def is_zero_def is_infinite_def)
  have q10: "num_div (Fin 10) (Fin 0) = PInf"
    by (simp add: num_div_def is_zero_def is_infinite_def signed_inf_def negative_def)
  show ?thesis
    by (simp add: div_num [OF g0] div_num [OF g10] q0 q10 math_max_zero_other)
       (simp add: set_eco_num get_eq plain_host_def fresh_def string_of_def)
qed

section \<open>Reset\<close>

text \<open>
  C7. When the store's \<^verbatim>\<open>clear()\<close> does not throw, \<open>res()\<close> leaves no entry in the
  store, whoever wrote it, and afterwards every key reads as 0.
\<close>

theorem res_clears_store:
  assumes "fault H Clear (storage w) = None"
  shows "storage (snd (res H w)) = Map.empty \<and>
         (\<forall>k. fst (get H k (snd (res H w))) = Inr (Num (Fin 0)))"
  using assms
  by (auto simp: res_def localStorage_clear_def monad_defs get_eq split: option.splits)

theorem res_clears_witness:
  "fault plain_host Clear (storage (fresh\<lparr>storage := [''gold'' \<mapsto> Valid (JNum (Fin 10)), ''theme'' \<mapsto> Invalid]\<rparr>)) = None \<and>
   fst (get plain_host ''gold'' (fresh\<lparr>storage := [''gold'' \<mapsto> Valid (JNum (Fin 10)), ''theme'' \<mapsto> Invalid]\<rparr>)) = Inr (Num (Fin 10)) \<and>
   storage (snd (res plain_host (fresh\<lparr>storage := [''gold'' \<mapsto> Valid (JNum (Fin 10)), ''theme'' \<mapsto> Invalid]\<rparr>))) ''theme'' = None \<and>
   fst (get plain_host ''gold'' (snd (res plain_host (fresh\<lparr>storage := [''gold'' \<mapsto> Valid (JNum (Fin 10)), ''theme'' \<mapsto> Invalid]\<rparr>)))) = Inr (Num (Fin 0))"
proof -
  let ?w = "fresh\<lparr>storage := [''gold'' \<mapsto> Valid (JNum (Fin 10)), ''theme'' \<mapsto> Invalid]\<rparr>"
  have f: "fault plain_host Clear (storage ?w) = None"
    by (simp add: plain_host_def)
  have g: "fst (get plain_host ''gold'' ?w) = Inr (Num (Fin 10))"
    by (simp add: get_eq plain_host_def fresh_def)
  show ?thesis
    using f g res_clears_store [OF f] by simp
qed

section \<open>Random operands\<close>

text \<open>
  C8, as amended. \<open>randomize(min, max)\<close> is \<open>floor(random() * (max - min + 1)) + min\<close> in
  binary64 arithmetic. For every binary64 result of \<^verbatim>\<open>Math.random()\<close> in \<open>[0, 1)\<close> and all
  integers \<open>min \<le> max\<close> between \<open>-2\<^sup>5\<^sup>3\<close> and \<open>2\<^sup>5\<^sup>3\<close> with \<open>max - min < 2\<^sup>5\<^sup>3\<close>, it
  returns an integer \<open>c\<close> with \<open>min \<le> c \<le> max\<close>: the floor of the rounded product, plus
  \<open>min\<close>. With \<open>min = max\<close> it returns that value. It changes neither the store nor the
  console, for any arguments: all it does to the world is to take one result from the
  random source.
\<close>

theorem randomize_within_range:
  assumes "is_binary64 (random H (draws w))"
    and "0 \<le> random H (draws w)" and "random H (draws w) < 1"
    and "a \<le> b" and "- (2 ^ 53) \<le> a" and "b \<le> 2 ^ 53" and "b - a < 2 ^ 53"
  shows "(\<exists>c y. randomize H (Num (Fin (of_int a))) (Num (Fin (of_int b))) w
                = (Inr (Num (Fin (of_int c))), w\<lparr>draws := Suc (draws w)\<rparr>)
              \<and> num_mul (Fin (random H (draws w))) (Fin (of_int (b - a + 1))) = Fin y
              \<and> c = \<lfloor>y\<rfloor> + a
              \<and> a \<le> c \<and> c \<le> b \<and> (a = b \<longrightarrow> c = a)) \<and>
         storage (snd (randomize H mn mx w)) = storage w \<and>
         console (snd (randomize H mn mx w)) = console w"
proof -
  let ?r = "random H (draws w)"
  let ?n = "b - a + 1"
  have n: "1 \<le> ?n" "?n \<le> 2 ^ 53" using assms(4,7) by simp_all
  obtain y where y: "num_mul (Fin ?r) (Fin (of_int ?n)) = Fin y" "0 \<le> y" "y < of_int ?n"
    using num_mul_draw [OF assms(1-3) n] by blast
  let ?c = "\<lfloor>y\<rfloor> + a"
  have lo: "0 \<le> \<lfloor>y\<rfloor>" using y(2) by simp
  have hi: "\<lfloor>y\<rfloor> < ?n" using y(3) by (simp only: floor_less_iff)
  have bounds: "a \<le> ?c" "?c \<le> b" using lo hi by simp_all
  have same: "a = b \<longrightarrow> ?c = a" using bounds by linarith
  have d: "num_sub (Fin (of_int b)) (Fin (of_int a)) = Fin (of_int (b - a))"
  proof (rule num_sub_int)
    show "\<bar>b - a\<bar> \<le> 2 ^ 53" using assms(4,7) by linarith
  qed
  have s: "num_add (Fin (of_int (b - a))) (Fin 1) = Fin (of_int ?n)"
    using num_add_int [of "b - a" 1] n by simp
  have e: "num_add (Fin (of_int \<lfloor>y\<rfloor>)) (Fin (of_int a)) = Fin (of_int ?c)"
  proof (rule num_add_int)
    show "\<bar>\<lfloor>y\<rfloor> + a\<bar> \<le> 2 ^ 53" using bounds assms(5,6) by linarith
  qed
  have run: "randomize H (Num (Fin (of_int a))) (Num (Fin (of_int b))) w
               = (Inr (Num (Fin (of_int ?c))), w\<lparr>draws := Suc (draws w)\<rparr>)"
    by (simp only: randomize_eq js_minus_Num js_plus_Num js_times_Num Math_floor_Num
          and_then_Inr d s y(1) math_floor_def jsnum.case e)
  have "\<exists>c y. randomize H (Num (Fin (of_int a))) (Num (Fin (of_int b))) w
                = (Inr (Num (Fin (of_int c))), w\<lparr>draws := Suc (draws w)\<rparr>)
              \<and> num_mul (Fin ?r) (Fin (of_int ?n)) = Fin y
              \<and> c = \<lfloor>y\<rfloor> + a
              \<and> a \<le> c \<and> c \<le> b \<and> (a = b \<longrightarrow> c = a)"
    using run y(1) bounds same by (intro exI [of _ ?c] exI [of _ y] conjI) simp_all
  moreover have "storage (snd (randomize H mn mx w)) = storage w"
    and "console (snd (randomize H mn mx w)) = console w"
    by (simp_all add: randomize_eq)
  ultimately show ?thesis
    by blast
qed

theorem randomize_witness:
  "is_binary64 (random plain_host (draws fresh)) \<and>
   0 \<le> random plain_host (draws fresh) \<and> random plain_host (draws fresh) < 1 \<and>
   (1::int) \<le> 6 \<and> - (2 ^ 53) \<le> (1::int) \<and> (6::int) \<le> 2 ^ 53 \<and> (6::int) - 1 < 2 ^ 53 \<and>
   fst (randomize plain_host (Num (Fin 1)) (Num (Fin 6)) fresh) = Inr (Num (Fin 4)) \<and>
   storage (snd (randomize plain_host (Num (Fin 1)) (Num (Fin 6)) fresh)) = storage fresh \<and>
   (3::int) \<le> 3 \<and>
   fst (randomize plain_host (Num (Fin 3)) (Num (Fin 3)) fresh) = Inr (Num (Fin 3))"
proof -
  have r: "random plain_host (draws fresh) = 1 / 2"
    by (simp add: plain_host_def fresh_def)
  have h: "is_binary64 (random plain_host (draws fresh))"
    "0 \<le> random plain_host (draws fresh)" "random plain_host (draws fresh) < 1"
    by (simp_all add: r is_binary64_half)
  have le: "(1::int) \<le> 6" "- (2 ^ 53) \<le> (1::int)" "(6::int) \<le> 2 ^ 53" "(6::int) - 1 < 2 ^ 53"
    and le3: "(3::int) \<le> 3" "- (2 ^ 53) \<le> (3::int)" "(3::int) \<le> 2 ^ 53" "(3::int) - 3 < 2 ^ 53"
    by simp_all
  have m: "num_mul (Fin (1 / 2)) (Fin 6) = Fin 3" "num_mul (Fin (1 / 2)) (Fin 1) = Fin (1 / 2)"
    using is_binary64_half
    by (simp_all add: num_mul_def is_infinite_def is_zero_def negative_def magnitude_def
          is_binary64_def)
  show ?thesis
    using h le le3
      randomize_within_range [OF h le, of "Num (Fin 1)" "Num (Fin 6)"]
      randomize_within_range [OF h le3, of "Num (Fin 3)" "Num (Fin 3)"]
    by (auto simp: r m)
qed

text \<open>
  C8, as stated for every pair of integers, fails: \<open>2\<^sup>1\<^sup>0\<^sup>2\<^sup>3\<close> and its negative are
  integers and binary64 values, their difference overflows to \<open>Infinity\<close>, and
  \<open>randomize(-2\<^sup>1\<^sup>0\<^sup>2\<^sup>3, 2\<^sup>1\<^sup>0\<^sup>2\<^sup>3)\<close> with the draw \<open>1/2\<close> returns \<open>Infinity\<close>, which is no
  integer between the two.
\<close>

theorem randomize_overflows:
  "is_binary64 (random plain_host (draws fresh)) \<and>
   0 \<le> random plain_host (draws fresh) \<and> random plain_host (draws fresh) < 1 \<and>
   is_binary64 (2 ^ 1023) \<and>
   fst (randomize plain_host (Num (Fin (- (2 ^ 1023)))) (Num (Fin (2 ^ 1023))) fresh)
     = Inr (Num PInf)"
proof -
  have r: "random plain_host (draws fresh) = 1 / 2"
    by (simp add: plain_host_def fresh_def)
  have b: "is_binary64 (2 ^ 1023)"
    by (rule is_binary64_pow2) simp
  have "(2::rat) ^ 1023 + 2 ^ 1023 = 2 ^ Suc 1023" by (rule pow2_double)
  also have "Suc 1023 = 1024" by simp
  finally have "(2::rat) ^ 1024 \<le> 2 ^ 1023 + 2 ^ 1023" by (simp only: order_refl)
  then have "round64 (2 ^ 1023 + 2 ^ 1023) = PInf" by (rule round64_overflow(1))
  moreover have "(2::rat) ^ 1023 \<noteq> 0" by (simp only: power_not_zero zero_neq_numeral not_False_eq_True)
  ultimately have d: "num_sub (Fin (2 ^ 1023)) (Fin (- (2 ^ 1023))) = PInf"
    by (simp only: num_sub_def num_neg_def num_add_def is_infinite_def jsnum.case jsnum.distinct
          jsnum.inject neg_equal_0_iff_equal if_False minus_minus simp_thms prod.case)
  have m: "num_mul (Fin (1 / 2)) PInf = PInf"
    by (rule num_mul_PInf) simp
  have "fst (randomize plain_host (Num (Fin (- (2 ^ 1023)))) (Num (Fin (2 ^ 1023))) fresh)
          = Inr (Num PInf)"
    by (simp only: randomize_eq fst_conv r js_minus_Num js_plus_Num js_times_Num Math_floor_Num
          and_then_Inr d m num_add_PInf math_floor_def jsnum.case jsnum.distinct
          not_False_eq_True)
  then show ?thesis
    using b by (simp only: r is_binary64_half simp_thms) simp
qed

section \<open>What an operation leaves alone\<close>

text \<open>
  C9. Whatever the store does and whatever the argument is, \<open>set\<close>, \<open>add\<close>, \<open>sub\<close>,
  \<open>mul\<close>, \<open>div\<close> and \<open>del\<close> on a key \<open>k\<close> leave the entry of every other key \<open>k'\<close> as it
  was; \<open>get\<close>, \<open>batchGet\<close> and \<open>randomize\<close> leave the whole store as it was. Only
  \<open>res()\<close> reaches beyond one key: when \<^verbatim>\<open>clear()\<close> does not throw it removes every entry.
\<close>

theorem other_keys_untouched:
  "(k' \<noteq> k \<longrightarrow>
      storage (snd (set_eco H k v w)) k' = storage w k' \<and>
      storage (snd (add H k v w)) k' = storage w k' \<and>
      storage (snd (sub H k v w)) k' = storage w k' \<and>
      storage (snd (mul H k v w)) k' = storage w k' \<and>
      storage (snd (div_eco H k v w)) k' = storage w k' \<and>
      storage (snd (del H k w)) k' = storage w k') \<and>
   storage (snd (get H k w)) = storage w \<and>
   storage (snd (batchGet H keys w)) = storage w \<and>
   storage (snd (randomize H mn mx w)) = storage w \<and>
   (fault H Clear (storage w) = None \<longrightarrow> storage (snd (res H w)) = Map.empty)"
proof (intro conjI impI)
  assume ne: "k' \<noteq> k"
  show "storage (snd (set_eco H k v w)) k' = storage w k'"
    by (rule keeps_other [OF keeps_set_eco ne]) simp
  show "storage (snd (add H k v w)) k' = storage w k'"
    by (rule keeps_other [OF keeps_add ne]) simp
  show "storage (snd (sub H k v w)) k' = storage w k'"
    by (rule keeps_other [OF keeps_sub ne]) simp
  show "storage (snd (mul H k v w)) k' = storage w k'"
    by (rule keeps_other [OF keeps_mul ne]) simp
  show "storage (snd (div_eco H k v w)) k' = storage w k'"
    by (rule keeps_other [OF keeps_div_eco ne]) simp
  show "storage (snd (del H k w)) k' = storage w k'"
    by (rule keeps_other [OF keeps_del ne]) simp
next
  show "storage (snd (get H k w)) = storage w"
    by (rule keeps_all [OF keeps_get])
  show "storage (snd (batchGet H keys w)) = storage w"
    by (rule keeps_all [OF keeps_batchGet])
  show "storage (snd (randomize H mn mx w)) = storage w"
    by (rule keeps_all [OF keeps_randomize])
next
  assume "fault H Clear (storage w) = None"
  then show "storage (snd (res H w)) = Map.empty"
    by (simp add: res_def localStorage_clear_def try_catch_def)
qed

theorem other_keys_witness:
  "''silver'' \<noteq> ''gold'' \<and>
   storage (snd (add plain_host ''gold'' (Num (Fin 5))
      (fresh\<lparr>storage := [''gold'' \<mapsto> Valid (JNum (Fin 10)), ''silver'' \<mapsto> Valid (JNum (Fin 3))]\<rparr>))) ''silver''
     = Some (Valid (JNum (Fin 3))) \<and>
   storage (snd (del plain_host ''gold''
      (fresh\<lparr>storage := [''gold'' \<mapsto> Valid (JNum (Fin 10)), ''silver'' \<mapsto> Valid (JNum (Fin 3))]\<rparr>))) ''silver''
     = Some (Valid (JNum (Fin 3))) \<and>
   fault plain_host Clear
      (storage (fresh\<lparr>storage := [''gold'' \<mapsto> Valid (JNum (Fin 10)), ''silver'' \<mapsto> Valid (JNum (Fin 3))]\<rparr>)) = None \<and>
   storage (snd (res plain_host
      (fresh\<lparr>storage := [''gold'' \<mapsto> Valid (JNum (Fin 10)), ''silver'' \<mapsto> Valid (JNum (Fin 3))]\<rparr>))) ''silver''
     = None"
proof -
  let ?w = "fresh\<lparr>storage := [''gold'' \<mapsto> Valid (JNum (Fin 10)), ''silver'' \<mapsto> Valid (JNum (Fin 3))]\<rparr>"
  have ne: "''silver'' \<noteq> ''gold''"
    by simp
  have f: "fault plain_host Clear (storage ?w) = None"
    by (simp add: plain_host_def)
  show ?thesis
    using ne f other_keys_untouched [of "''silver''" "''gold''" plain_host "Num (Fin 5)" ?w]
    by (simp add: fresh_def)
qed

section \<open>Exceptions stay inside\<close>

text \<open>
  C5. None of \<open>get\<close>, \<open>set\<close>, \<open>add\<close>, \<open>sub\<close>, \<open>mul\<close>, \<open>div\<close>, \<open>del\<close>, \<open>res\<close>, the five
  batch operations, \<open>batchDel\<close> and \<open>batchGet\<close> ends with an exception, for any
  argument, any content of the store and any exception the store throws. What is thrown by
  the store or by decoding is caught in the operation where it happens, printed with
  \<^verbatim>\<open>console.error\<close> and replaced by the default: \<open>get\<close> returns 0, \<open>set\<close>, \<open>del\<close> and
  \<open>res\<close> return with the world unchanged but for the console, and \<open>batchGet\<close> returns
  the empty object when the iteration over its argument throws. On a store whose every
  access throws, \<open>batchGet\<close> of an array gives 0 for each key (each \<open>get\<close> has already
  replaced its failure by 0), and no operation changes an entry.
\<close>

theorem no_exception_reaches_caller:
  "\<not> propagates (get H key) w \<and>
   \<not> propagates (set_eco H key v) w \<and>
   \<not> propagates (add H key v) w \<and>
   \<not> propagates (sub H key v) w \<and>
   \<not> propagates (mul H key v) w \<and>
   \<not> propagates (div_eco H key v) w \<and>
   \<not> propagates (del H key) w \<and>
   \<not> propagates (res H) w \<and>
   \<not> propagates (batchSet H items) w \<and>
   \<not> propagates (batchAdd H items) w \<and>
   \<not> propagates (batchSub H items) w \<and>
   \<not> propagates (batchMul H items) w \<and>
   \<not> propagates (batchDiv H items) w \<and>
   \<not> propagates (batchDel H keys) w \<and>
   \<not> propagates (batchGet H keys) w \<and>
   (\<forall>e. fault H (GetItem key) (storage w) = Some e \<longrightarrow>
      get H key w
        = (Inr (Num (Fin 0)),
           w\<lparr>console := console w @ [(''Error getting key '' @ quoted key @ '':'', e)]\<rparr>)) \<and>
   (fault H (GetItem key) (storage w) = None \<and> storage w key = Some Invalid \<longrightarrow>
      get H key w
        = (Inr (Num (Fin 0)),
           w\<lparr>console := console w @ [(''Error getting key '' @ quoted key @ '':'', SyntaxError)]\<rparr>)) \<and>
   (\<forall>e. fault H (SetItem key (string_of (JSON_stringify (Num n)))) (storage w) = Some e \<longrightarrow>
      set_eco H key (Num n) w
        = (Inr (), w\<lparr>console := console w @ [(''Error setting key '' @ quoted key @ '':'', e)]\<rparr>)) \<and>
   (\<forall>e. fault H (RemoveItem key) (storage w) = Some e \<longrightarrow>
      del H key w
        = (Inr (), w\<lparr>console := console w @ [(''Error deleting key '' @ quoted key @ '':'', e)]\<rparr>)) \<and>
   (\<forall>e. fault H Clear (storage w) = Some e \<longrightarrow>
      res H w = (Inr (), w\<lparr>console := console w @ [(''Error resetting localStorage:'', e)]\<rparr>)) \<and>
   batchGet H NoArray w
     = (Inr Map.empty, w\<lparr>console := console w @ [(''Error batch getting:'', TypeError)]\<rparr>) \<and>
   (broken H \<longrightarrow>
      fst (batchGet H (Array ks) w)
        = Inr (\<lambda>k. if k \<in> set ks \<and> k \<noteq> ''__proto__'' then Some (Num (Fin 0)) else None) \<and>
      storage (snd (set_eco H key v w)) = storage w \<and>
      storage (snd (add H key v w)) = storage w \<and>
      storage (snd (sub H key v w)) = storage w \<and>
      storage (snd (mul H key v w)) = storage w \<and>
      storage (snd (div_eco H key v w)) = storage w \<and>
      storage (snd (del H key w)) = storage w \<and>
      storage (snd (res H w)) = storage w \<and>
      storage (snd (batchSet H items w)) = storage w \<and>
      storage (snd (batchAdd H items w)) = storage w \<and>
      storage (snd (batchSub H items w)) = storage w \<and>
      storage (snd (batchMul H items w)) = storage w \<and>
      storage (snd (batchDiv H items w)) = storage w \<and>
      storage (snd (batchDel H keys w)) = storage w)"
proof -
  have returns:
    "\<not> propagates (get H key) w" "\<not> propagates (set_eco H key v) w"
    "\<not> propagates (add H key v) w" "\<not> propagates (sub H key v) w"
    "\<not> propagates (mul H key v) w" "\<not> propagates (div_eco H key v) w"
    "\<not> propagates (del H key) w" "\<not> propagates (res H) w"
    "\<not> propagates (batchSet H items) w" "\<not> propagates (batchAdd H items) w"
    "\<not> propagates (batchSub H items) w" "\<not> propagates (batchMul H items) w"
    "\<not> propagates (batchDiv H items) w" "\<not> propagates (batchDel H keys) w"
    "\<not> propagates (batchGet H keys) w"
    unfolding get_def set_eco_def add_def sub_def mul_def div_eco_def del_def res_def
      batchSet_def batchAdd_def batchSub_def batchMul_def batchDiv_def batchDel_def batchGet_def
    by (rule try_catch_handled, rule console_error_returns console_error_then_ret)+
  have logged:
    "\<forall>e. fault H (GetItem key) (storage w) = Some e \<longrightarrow>
      get H key w
        = (Inr (Num (Fin 0)),
           w\<lparr>console := console w @ [(''Error getting key '' @ quoted key @ '':'', e)]\<rparr>)"
    "fault H (GetItem key) (storage w) = None \<and> storage w key = Some Invalid \<longrightarrow>
      get H key w
        = (Inr (Num (Fin 0)),
           w\<lparr>console := console w @ [(''Error getting key '' @ quoted key @ '':'', SyntaxError)]\<rparr>)"
    "\<forall>e. fault H (SetItem key (string_of (JSON_stringify (Num n)))) (storage w) = Some e \<longrightarrow>
      set_eco H key (Num n) w
        = (Inr (), w\<lparr>console := console w @ [(''Error setting key '' @ quoted key @ '':'', e)]\<rparr>)"
    "\<forall>e. fault H (RemoveItem key) (storage w) = Some e \<longrightarrow>
      del H key w
        = (Inr (), w\<lparr>console := console w @ [(''Error deleting key '' @ quoted key @ '':'', e)]\<rparr>)"
    "\<forall>e. fault H Clear (storage w) = Some e \<longrightarrow>
      res H w = (Inr (), w\<lparr>console := console w @ [(''Error resetting localStorage:'', e)]\<rparr>)"
    "batchGet H NoArray w
     = (Inr Map.empty, w\<lparr>console := console w @ [(''Error batch getting:'', TypeError)]\<rparr>)"
    by (simp_all add: get_eq set_eco_num del_def res_def batchGet_def reduce_def
          localStorage_removeItem_def localStorage_clear_def monad_defs)
  have writes: "storage (snd (set_eco H key v w)) = storage w"
      "storage (snd (add H key v w)) = storage w"
      "storage (snd (sub H key v w)) = storage w"
      "storage (snd (mul H key v w)) = storage w"
      "storage (snd (div_eco H key v w)) = storage w"
      "storage (snd (del H key w)) = storage w"
      "storage (snd (res H w)) = storage w"
      "storage (snd (batchSet H items w)) = storage w"
      "storage (snd (batchAdd H items w)) = storage w"
      "storage (snd (batchSub H items w)) = storage w"
      "storage (snd (batchMul H items w)) = storage w"
      "storage (snd (batchDiv H items w)) = storage w"
      "storage (snd (batchDel H keys w)) = storage w"
    if b: "broken H"
    unfolding batchSet_def batchAdd_def batchSub_def batchMul_def batchDiv_def batchDel_def
    by (rule keeps_all;
        intro keeps_set_eco keeps_add keeps_sub keeps_mul keeps_div_eco keeps_del keeps_res
          keeps_batch_broken keeps_try_catch keeps_forEach keeps_console_error disjI2 b)+
  have reads: "fst (batchGet H (Array ks) w)
        = Inr (\<lambda>k. if k \<in> set ks \<and> k \<noteq> ''__proto__'' then Some (Num (Fin 0)) else None)"
    if b: "broken H"
    using accumulate_zero [OF b, of ks Map.empty w]
    by (auto simp: batchGet_def reduce_def try_catch_def)
  show ?thesis
    using returns logged writes reads by blast
qed

theorem no_exception_witness:
  "fault plain_host (GetItem ''gold'') (storage (fresh\<lparr>storage := [''gold'' \<mapsto> Invalid]\<rparr>)) = None \<and>
   storage (fresh\<lparr>storage := [''gold'' \<mapsto> Invalid]\<rparr>) ''gold'' = Some Invalid \<and>
   get plain_host ''gold'' (fresh\<lparr>storage := [''gold'' \<mapsto> Invalid]\<rparr>)
     = (Inr (Num (Fin 0)),
        fresh\<lparr>storage := [''gold'' \<mapsto> Invalid],
              console := [(''Error getting key '' @ quoted ''gold'' @ '':'', SyntaxError)]\<rparr>) \<and>
   broken broken_host \<and>
   fault broken_host (GetItem ''gold'') (storage fresh) = Some SecurityError \<and>
   fault broken_host (SetItem ''gold'' (string_of (JSON_stringify (Num (Fin 5))))) (storage fresh)
     = Some SecurityError \<and>
   fault broken_host (RemoveItem ''gold'') (storage fresh) = Some SecurityError \<and>
   fault broken_host Clear (storage fresh) = Some SecurityError \<and>
   \<not> propagates (batchSet broken_host (Array [(''gold'', Null)])) fresh \<and>
   get broken_host ''gold'' fresh
     = (Inr (Num (Fin 0)),
        fresh\<lparr>console := [(''Error getting key '' @ quoted ''gold'' @ '':'', SecurityError)]\<rparr>) \<and>
   set_eco broken_host ''gold'' (Num (Fin 5)) fresh
     = (Inr (), fresh\<lparr>console := [(''Error setting key '' @ quoted ''gold'' @ '':'', SecurityError)]\<rparr>) \<and>
   del broken_host ''gold'' fresh
     = (Inr (), fresh\<lparr>console := [(''Error deleting key '' @ quoted ''gold'' @ '':'', SecurityError)]\<rparr>) \<and>
   res broken_host fresh
     = (Inr (), fresh\<lparr>console := [(''Error resetting localStorage:'', SecurityError)]\<rparr>) \<and>
   storage (snd (batchSet broken_host (Array [(''gold'', Null)]) fresh)) = storage fresh \<and>
   storage (snd (add broken_host ''gold'' (Num (Fin 5)) fresh)) = storage fresh"
proof -
  have b: "broken broken_host"
    by (simp add: broken_def broken_host_def)
  have f: "fault broken_host (GetItem ''gold'') (storage fresh) = Some SecurityError"
    "fault broken_host (SetItem ''gold'' (string_of (JSON_stringify (Num (Fin 5))))) (storage fresh)
       = Some SecurityError"
    "fault broken_host (RemoveItem ''gold'') (storage fresh) = Some SecurityError"
    "fault broken_host Clear (storage fresh) = Some SecurityError"
    by (simp_all add: broken_host_def)
  have p: "fault plain_host (GetItem ''gold'') (storage (fresh\<lparr>storage := [''gold'' \<mapsto> Invalid]\<rparr>)) = None"
    "storage (fresh\<lparr>storage := [''gold'' \<mapsto> Invalid]\<rparr>) ''gold'' = Some Invalid"
    by (simp_all add: plain_host_def)
  show ?thesis
    using b f p
      no_exception_reaches_caller [of broken_host "''gold''" fresh "Num (Fin 5)"
        "Array [(''gold'', Null)]" NoArray "Fin 5" "[]"]
      no_exception_reaches_caller [of plain_host "''gold''" "fresh\<lparr>storage := [''gold'' \<mapsto> Invalid]\<rparr>"
        "Num (Fin 5)" NoArray NoArray "Fin 5" "[]"]
    by (simp add: fresh_def)
qed

section \<open>Batch operations\<close>

text \<open>
  C6. For an array of items \<^verbatim>\<open>{ key, value }\<close> whose values are Numbers or objects with
  Number \<^verbatim>\<open>min\<close> and \<^verbatim>\<open>max\<close>, each of \<open>batchSet\<close>, \<open>batchAdd\<close>, \<open>batchSub\<close>, \<open>batchMul\<close>
  and \<open>batchDiv\<close> returns normally and leaves the world that results from calling its
  scalar operation on the items one after the other, in the order of the array. A range
  is resolved when its item is reached, with the next result of the random source. Two
  items with the same key therefore apply one after the other: after \<open>set("gold", 10)\<close>,
  \<open>batchAdd\<close> of two items adding 5 to \<open>gold\<close> leaves 20, and of two ranges \<open>1..6\<close>
  resolved to 4 and then 1 leaves 15.
\<close>

theorem batch_applies_scalar_in_order:
  assumes "\<forall>(key, v) \<in> set items. is_amount v"
  shows "batchSet H (Array items) w
           = (Inr (), fold (\<lambda>(key, v) w'. snd (set_eco H key v w')) items w) \<and>
         batchAdd H (Array items) w
           = (Inr (), fold (\<lambda>(key, v) w'. snd (add H key v w')) items w) \<and>
         batchSub H (Array items) w
           = (Inr (), fold (\<lambda>(key, v) w'. snd (sub H key v w')) items w) \<and>
         batchMul H (Array items) w
           = (Inr (), fold (\<lambda>(key, v) w'. snd (mul H key v w')) items w) \<and>
         batchDiv H (Array items) w
           = (Inr (), fold (\<lambda>(key, v) w'. snd (div_eco H key v w')) items w)"
proof -
  have same:
    "bnd (resolve H v) (\<lambda>v'. set_eco H key v') w' = set_eco H key v w'"
    "bnd (resolve H v) (\<lambda>v'. add H key v') w' = add H key v w'"
    "bnd (resolve H v) (\<lambda>v'. sub H key v') w' = sub H key v w'"
    "bnd (resolve H v) (\<lambda>v'. mul H key v') w' = mul H key v w'"
    "bnd (resolve H v) (\<lambda>v'. div_eco H key v') w' = div_eco H key v w'"
    if "(key, v) \<in> set items" for key v w'
  proof -
    have "is_amount v" using assms that by auto
    then obtain r w1 where r: "resolve H v w' = (Inr r, w1)"
      using resolve_amount by blast
    show "bnd (resolve H v) (\<lambda>v'. set_eco H key v') w' = set_eco H key v w'"
      "bnd (resolve H v) (\<lambda>v'. add H key v') w' = add H key v w'"
      "bnd (resolve H v) (\<lambda>v'. sub H key v') w' = sub H key v w'"
      "bnd (resolve H v) (\<lambda>v'. mul H key v') w' = mul H key v w'"
      "bnd (resolve H v) (\<lambda>v'. div_eco H key v') w' = div_eco H key v w'"
      by (rule scalar_after_resolve [OF r])+
  qed
  show ?thesis
    unfolding batchSet_def batchAdd_def batchSub_def batchMul_def batchDiv_def forEach_def
    by (simp add: try_catch_def
          each_in_order [of "set_eco H", OF scalar_total(1) same(1)]
          each_in_order [of "add H", OF scalar_total(2) same(2)]
          each_in_order [of "sub H", OF scalar_total(3) same(3)]
          each_in_order [of "mul H", OF scalar_total(4) same(4)]
          each_in_order [of "div_eco H", OF scalar_total(5) same(5)])
qed

theorem batch_in_order_witness:
  "is_amount (Num (Fin 5)) \<and>
   fst (get plain_host ''gold''
     (snd (batchAdd plain_host (Array [(''gold'', Num (Fin 5)), (''gold'', Num (Fin 5))])
       (snd (set_eco plain_host ''gold'' (Num (Fin 10)) fresh))))) = Inr (Num (Fin 20)) \<and>
   is_amount (Obj [(''min'', Num (Fin 1)), (''max'', Num (Fin 6))]) \<and>
   fst (get plain_host ''gold''
     (snd (batchAdd plain_host
        (Array [(''gold'', Obj [(''min'', Num (Fin 1)), (''max'', Num (Fin 6))]),
                (''gold'', Obj [(''min'', Num (Fin 1)), (''max'', Num (Fin 6))])])
       (snd (set_eco plain_host ''gold'' (Num (Fin 10)) fresh))))) = Inr (Num (Fin 15))"
proof -
  let ?w = "snd (set_eco plain_host ''gold'' (Num (Fin 10)) fresh)"
  let ?r = "Obj [(''min'', Num (Fin 1)), (''max'', Num (Fin 6))]"
  have am: "is_amount (Num (Fin 5))" "is_amount ?r"
    by (simp_all add: is_amount_def)
  have a: "\<forall>(key, v) \<in> set [(''gold'', Num (Fin 5)), (''gold'', Num (Fin 5))]. is_amount v"
    using am by simp
  have b: "\<forall>(key, v) \<in> set [(''gold'', ?r), (''gold'', ?r)]. is_amount v"
    using am by simp
  have f: "fault plain_host = (\<lambda>a m. None)" "random plain_host = (\<lambda>i. if i = 0 then 1 / 2 else 0)"
    by (simp_all add: plain_host_def)
  have ev: "add plain_host ''gold'' v w
              = (case resolve plain_host v w of
                   (Inr (Num x), w1) \<Rightarrow>
                     (case get plain_host ''gold'' w1 of
                        (Inr (Num c), w2) \<Rightarrow> set_eco plain_host ''gold'' (Num (num_add c x)) w2
                      | _ \<Rightarrow> add plain_host ''gold'' v w)
                 | _ \<Rightarrow> add plain_host ''gold'' v w)" for v w
    by (auto simp: add_def bnd_def lift_def try_catch_def set_eco_num f
          split: prod.splits sum.splits jsval.splits)
  have rs: "resolve plain_host ?r w
              = (Inr (Num (if draws w = 0 then Fin 4 else Fin 1)), w\<lparr>draws := Suc (draws w)\<rparr>)" for w
    by (simp add: resolve_eq is_range_def field_def randomize_eq f num_sub_def num_neg_def
          num_add_def num_mul_def is_infinite_def is_zero_def negative_def magnitude_def
          signed_fin_def math_floor_def)
  have rn: "resolve plain_host (Num (Fin 5)) w = (Inr (Num (Fin 5)), w)" for w
    by (simp add: resolve_eq is_range_def)
  show ?thesis
    using am batch_applies_scalar_in_order [OF a, of plain_host ?w]
          batch_applies_scalar_in_order [OF b, of plain_host ?w]
    by (simp add: ev rs rn get_eq set_eco_num f fresh_def string_of_def num_add_def is_infinite_def)
qed

end
